theory Spec2Isabelle
  imports Main
begin

section \<open>JavaScript text operations used by the history store\<close>

text \<open>
  Source: \<^verbatim>\<open>src/index.ts\<close> (NanoClaw, single file version). JavaScript strings are
  modelled as \<^typ>\<open>string\<close>, one \<^typ>\<open>char\<close> per UTF-16 code unit, so the text of
  this model is restricted to the code units U+0000 to U+00FF.
\<close>

definition code :: "char \<Rightarrow> nat" where
  \<comment> \<open>the code unit as a number\<close>
  "code c = of_char c"

definition js_space :: "char \<Rightarrow> bool" where
  \<comment> \<open>WhiteSpace and LineTerminator of ECMAScript, as far as they lie below U+0100:
      TAB, LF, VT, FF, CR, SP, NBSP. These are what \<^verbatim>\<open>String.prototype.trim\<close> strips.\<close>
  "js_space c = (c \<in> set [CHR 0x09, CHR 0x0A, CHR 0x0B, CHR 0x0C, CHR 0x0D, CHR 0x20, CHR 0xA0])"

definition trim :: "string \<Rightarrow> string" where
  \<comment> \<open>\<^verbatim>\<open>s.trim()\<close>\<close>
  "trim s = rev (dropWhile js_space (rev (dropWhile js_space s)))"

fun split :: "char \<Rightarrow> string \<Rightarrow> string list" where
  \<comment> \<open>\<^verbatim>\<open>s.split(d)\<close> for a one-character separator; the empty string gives
      one empty field.\<close>
  "split d [] = [[]]"
| "split d (c # cs) =
     (if c = d then [] # split d cs
      else (case split d cs of [] \<Rightarrow> [[c]] | l # ls \<Rightarrow> (c # l) # ls))"

fun join :: "string \<Rightarrow> string list \<Rightarrow> string" where
  \<comment> \<open>\<^verbatim>\<open>xs.join(sep)\<close> on an array of strings\<close>
  "join sep [] = []"
| "join sep [x] = x"
| "join sep (x # y # ys) = x @ sep @ join sep (y # ys)"

definition startsWith :: "string \<Rightarrow> string \<Rightarrow> bool" where
  \<comment> \<open>\<^verbatim>\<open>s.startsWith(p)\<close>\<close>
  "startsWith s p = (take (length p) s = p)"

definition slice_last :: "nat \<Rightarrow> 'a list \<Rightarrow> 'a list" where
  \<comment> \<open>\<^verbatim>\<open>xs.slice(-k)\<close>: the last \<open>k\<close> elements, all of them when there are fewer\<close>
  "slice_last k xs = drop (length xs - k) xs"

section \<open>JSON values, \<^verbatim>\<open>JSON.stringify\<close> and \<^verbatim>\<open>JSON.parse\<close>\<close>

text \<open>
  The values \<^verbatim>\<open>JSON.parse\<close> can return. A number is kept as the numeral it was read
  from; its double value is never inspected by the program, only printed again by
  \<^verbatim>\<open>JSON.stringify\<close>, and that printing is a parameter of the model (see
  \<open>JSON_stringify\<close>). An object is its list of own properties in the order
  \<^verbatim>\<open>[[OwnPropertyKeys]]\<close> enumerates them.
\<close>

datatype json =
    JNull
  | JBool bool
  | JNumber string
  | JString string
  | JArray "json list"
  | JObject "(string \<times> json) list"

datatype error =
    SyntaxError     \<comment> \<open>thrown by \<^verbatim>\<open>JSON.parse\<close>\<close>
  | TypeError       \<comment> \<open>property read on \<^verbatim>\<open>null\<close>\<close>
  | EACCES          \<comment> \<open>\<^verbatim>\<open>fs\<close>: permission denied\<close>
  | ENOENT          \<comment> \<open>\<^verbatim>\<open>fs\<close>: no such file\<close>
  | APIError        \<comment> \<open>rejection of \<^verbatim>\<open>anthropic.messages.create\<close>\<close>
  | GrammyError     \<comment> \<open>rejection of a Telegram API call\<close>
  | BeyondLatin1    \<comment> \<open>not an error of the program: a four-digit escape for a code unit
                        above U+00FF, which the alphabet of this model cannot hold\<close>

subsection \<open>Printing\<close>

definition hex_digit :: "nat \<Rightarrow> char" where
  "hex_digit n = ''0123456789abcdef'' ! (n mod 16)"

fun quote_char :: "char \<Rightarrow> string" where
  \<comment> \<open>QuoteJSONString, one code unit: the two-character escapes of its table, a
      four-digit hexadecimal escape for the other code units below U+0020, the code unit itself
      otherwise.\<close>
  "quote_char c =
     (if c = CHR 0x08 then [CHR 0x5C, CHR ''b'']
      else if c = CHR 0x09 then [CHR 0x5C, CHR ''t'']
      else if c = CHR 0x0A then [CHR 0x5C, CHR ''n'']
      else if c = CHR 0x0C then [CHR 0x5C, CHR ''f'']
      else if c = CHR 0x0D then [CHR 0x5C, CHR ''r'']
      else if c = CHR 0x22 then [CHR 0x5C, CHR 0x22]
      else if c = CHR 0x5C then [CHR 0x5C, CHR 0x5C]
      else if code c < 0x20 then
        [CHR 0x5C, CHR ''u'', CHR ''0'', CHR ''0'',
         hex_digit (code c div 16), hex_digit (code c mod 16)]
      else [c])"

definition quote :: "string \<Rightarrow> string" where
  "quote s = CHR 0x22 # concat (map quote_char s) @ [CHR 0x22]"

primrec JSON_stringify :: "(string \<Rightarrow> string) \<Rightarrow> json \<Rightarrow> string" where
  \<comment> \<open>\<^verbatim>\<open>JSON.stringify(v)\<close> without replacer or indentation. The first argument is
      the run-time's printing of a number, from the numeral it was parsed from.\<close>
  "JSON_stringify num JNull = ''null''"
| "JSON_stringify num (JBool b) = (if b then ''true'' else ''false'')"
| "JSON_stringify num (JNumber l) = num l"
| "JSON_stringify num (JString s) = quote s"
| "JSON_stringify num (JArray vs) =
     ''['' @ join '','' (map (JSON_stringify num) vs) @ '']''"
| "JSON_stringify num (JObject kvs) =
     ''{'' @ join '',''
       (map (\<lambda>kv. quote (fst kv) @ '':'' @ snd kv)
          (map (map_prod id (JSON_stringify num)) kvs)) @ ''}''"

subsection \<open>Parsing\<close>

definition json_space :: "char \<Rightarrow> bool" where
  \<comment> \<open>JSON white space: TAB, LF, CR, SP\<close>
  "json_space c = (c \<in> set [CHR 0x09, CHR 0x0A, CHR 0x0D, CHR 0x20])"

definition skip_ws :: "string \<Rightarrow> string" where
  "skip_ws s = dropWhile json_space s"

definition is_digit :: "char \<Rightarrow> bool" where
  "is_digit c = (48 \<le> code c \<and> code c \<le> 57)"

definition hex_value :: "char \<Rightarrow> nat option" where
  "hex_value c =
     (if 48 \<le> code c \<and> code c \<le> 57 then Some (code c - 48)
      else if 97 \<le> code c \<and> code c \<le> 102 then Some (code c - 87)
      else if 65 \<le> code c \<and> code c \<le> 70 then Some (code c - 55)
      else None)"

definition unescape :: "char \<Rightarrow> char option" where
  \<comment> \<open>the character after a backslash, \<^verbatim>\<open>u\<close> apart\<close>
  "unescape e =
     (if e = CHR 0x22 then Some (CHR 0x22)
      else if e = CHR 0x5C then Some (CHR 0x5C)
      else if e = CHR ''/'' then Some (CHR ''/'')
      else if e = CHR ''b'' then Some (CHR 0x08)
      else if e = CHR ''f'' then Some (CHR 0x0C)
      else if e = CHR ''n'' then Some (CHR 0x0A)
      else if e = CHR ''r'' then Some (CHR 0x0D)
      else if e = CHR ''t'' then Some (CHR 0x09)
      else None)"

definition cons_result :: "char \<Rightarrow> error + string \<times> string \<Rightarrow> error + string \<times> string" where
  "cons_result c r = (case r of Inl e \<Rightarrow> Inl e | Inr (s, rest) \<Rightarrow> Inr (c # s, rest))"

fun parse_chars :: "string \<Rightarrow> error + string \<times> string" where
  \<comment> \<open>the characters of a JSON string after its opening quote: the decoded string and
      the text after the closing quote\<close>
  "parse_chars [] = Inl SyntaxError"
| "parse_chars (c # cs) =
     (if c = CHR 0x22 then Inr ([], cs)
      else if c = CHR 0x5C then
        (case cs of
           [] \<Rightarrow> Inl SyntaxError
         | e # es \<Rightarrow>
             if e = CHR ''u'' then
               (case es of
                  h1 # h2 # h3 # h4 # r \<Rightarrow>
                    (case (hex_value h1, hex_value h2, hex_value h3, hex_value h4) of
                       (Some v1, Some v2, Some v3, Some v4) \<Rightarrow>
                         if v1 = 0 \<and> v2 = 0
                         then cons_result (char_of (16 * v3 + v4)) (parse_chars r)
                         else Inl BeyondLatin1
                     | _ \<Rightarrow> Inl SyntaxError)
                | _ \<Rightarrow> Inl SyntaxError)
             else
               (case unescape e of
                  None \<Rightarrow> Inl SyntaxError
                | Some d \<Rightarrow> cons_result d (parse_chars es)))
      else if code c < 0x20 then Inl SyntaxError
      else cons_result c (parse_chars cs))"

definition number_sign :: "string \<Rightarrow> string \<times> string" where
  \<comment> \<open>an optional minus\<close>
  "number_sign s =
     (case s of
        [] \<Rightarrow> ([], s)
      | c # cs \<Rightarrow> if c = CHR ''-'' then ([c], cs) else ([], s))"

definition number_int :: "string \<Rightarrow> (string \<times> string) option" where
  \<comment> \<open>\<^verbatim>\<open>0\<close>, or a digit from 1 to 9 followed by digits\<close>
  "number_int s =
     (case s of
        [] \<Rightarrow> None
      | c # cs \<Rightarrow>
          if c = CHR ''0'' then Some ([c], cs)
          else if is_digit c then Some (takeWhile is_digit s, dropWhile is_digit s)
          else None)"

definition number_frac :: "string \<Rightarrow> (string \<times> string) option" where
  \<comment> \<open>an optional fraction: a point and at least one digit\<close>
  "number_frac s =
     (case s of
        [] \<Rightarrow> Some ([], s)
      | c # cs \<Rightarrow>
          if c = CHR ''.'' then
            (if takeWhile is_digit cs = [] then None
             else Some (c # takeWhile is_digit cs, dropWhile is_digit cs))
          else Some ([], s))"

definition number_exp :: "string \<Rightarrow> (string \<times> string) option" where
  \<comment> \<open>an optional exponent: \<^verbatim>\<open>e\<close> or \<^verbatim>\<open>E\<close>, an optional sign, at least one digit\<close>
  "number_exp s =
     (case s of
        [] \<Rightarrow> Some ([], s)
      | c # cs \<Rightarrow>
          if c = CHR ''e'' \<or> c = CHR ''E'' then
            (let (sg, ds) = (case cs of
                               [] \<Rightarrow> ([], cs)
                             | d # cs' \<Rightarrow> if d = CHR ''+'' \<or> d = CHR ''-'' then ([d], cs')
                                         else ([], cs))
             in if takeWhile is_digit ds = [] then None
                else Some (c # sg @ takeWhile is_digit ds, dropWhile is_digit ds))
          else Some ([], s))"

definition parse_number :: "string \<Rightarrow> (string \<times> string) option" where
  \<comment> \<open>a JSON number at the head of the text: its numeral and the text after it\<close>
  "parse_number s =
     (let (sg, s1) = number_sign s
      in case number_int s1 of
           None \<Rightarrow> None
         | Some (ds, s2) \<Rightarrow>
             (case number_frac s2 of
                None \<Rightarrow> None
              | Some (fs, s3) \<Rightarrow>
                  (case number_exp s3 of
                     None \<Rightarrow> None
                   | Some (es, s4) \<Rightarrow> Some (sg @ ds @ fs @ es, s4))))"

definition digits_value :: "string \<Rightarrow> int" where
  "digits_value k = foldl (\<lambda>n c. 10 * n + (int (code c) - 48)) 0 k"

definition array_index :: "string \<Rightarrow> int option" where
  \<comment> \<open>a property key that is an array index: the canonical decimal numeral of an
      integer below \<open>2^32 - 1\<close>\<close>
  "array_index k =
     (if k \<noteq> [] \<and> list_all is_digit k \<and> (k = ''0'' \<or> hd k \<noteq> CHR ''0'')
         \<and> digits_value k < 4294967295
      then Some (digits_value k) else None)"

fun define_property :: "string \<Rightarrow> json \<Rightarrow> (string \<times> json) list \<Rightarrow> (string \<times> json) list" where
  \<comment> \<open>CreateDataProperty on the properties in creation order: a key that is there
      keeps its place and takes the new value\<close>
  "define_property k v [] = [(k, v)]"
| "define_property k v (p # ps) =
     (if fst p = k then (k, v) # ps else p # define_property k v ps)"

definition own_properties :: "(string \<times> json) list \<Rightarrow> (string \<times> json) list" where
  \<comment> \<open>\<^verbatim>\<open>[[OwnPropertyKeys]]\<close>: array indices in ascending order, then the other keys
      in creation order\<close>
  "own_properties ps =
     sort_key (\<lambda>p. case array_index (fst p) of Some i \<Rightarrow> i | None \<Rightarrow> 0)
       (filter (\<lambda>p. array_index (fst p) \<noteq> None) ps)
     @ filter (\<lambda>p. array_index (fst p) = None) ps"

definition make_object :: "(string \<times> json) list \<Rightarrow> json" where
  \<comment> \<open>the object of a list of members in the order of the text\<close>
  "make_object members =
     JObject (own_properties (foldl (\<lambda>ps m. define_property (fst m) (snd m) ps) [] members))"

text \<open>
  The recursive descent over values, array elements and object members. The first
  argument bounds the depth of the calls. A call either has consumed a character of
  the text since the call before it or is the call from elements to their first
  value, so the bound \<open>2 * length s + 2\<close> that \<open>JSON_parse\<close> gives is never reached: the
  result is the same for every larger bound (\<open>JSON_parse_fuel\<close> below).
\<close>

fun parse_value :: "nat \<Rightarrow> string \<Rightarrow> error + json \<times> string"
  and parse_elements :: "nat \<Rightarrow> string \<Rightarrow> error + json list \<times> string"
  and parse_members :: "nat \<Rightarrow> string \<Rightarrow> error + (string \<times> json) list \<times> string" where
  "parse_value 0 s = Inl SyntaxError"
| "parse_value (Suc n) s =
     (case skip_ws s of
        [] \<Rightarrow> Inl SyntaxError
      | c # cs \<Rightarrow>
          if c = CHR ''{'' then
            (case skip_ws cs of
               [] \<Rightarrow> Inl SyntaxError
             | d # ds \<Rightarrow>
                 if d = CHR ''}'' then Inr (JObject [], ds)
                 else (case parse_members n cs of
                         Inl e \<Rightarrow> Inl e
                       | Inr (ms, r) \<Rightarrow> Inr (make_object ms, r)))
          else if c = CHR ''['' then
            (case skip_ws cs of
               [] \<Rightarrow> Inl SyntaxError
             | d # ds \<Rightarrow>
                 if d = CHR '']'' then Inr (JArray [], ds)
                 else (case parse_elements n cs of
                         Inl e \<Rightarrow> Inl e
                       | Inr (vs, r) \<Rightarrow> Inr (JArray vs, r)))
          else if c = CHR 0x22 then
            (case parse_chars cs of
               Inl e \<Rightarrow> Inl e
             | Inr (str, r) \<Rightarrow> Inr (JString str, r))
          else if take 4 (c # cs) = ''true'' then Inr (JBool True, drop 4 (c # cs))
          else if take 5 (c # cs) = ''false'' then Inr (JBool False, drop 5 (c # cs))
          else if take 4 (c # cs) = ''null'' then Inr (JNull, drop 4 (c # cs))
          else (case parse_number (c # cs) of
                  None \<Rightarrow> Inl SyntaxError
                | Some (l, r) \<Rightarrow> Inr (JNumber l, r)))"
| "parse_elements 0 s = Inl SyntaxError"
| "parse_elements (Suc n) s =
     (case parse_value n s of
        Inl e \<Rightarrow> Inl e
      | Inr (v, r) \<Rightarrow>
          (case skip_ws r of
             [] \<Rightarrow> Inl SyntaxError
           | c # cs \<Rightarrow>
               if c = CHR '','' then
                 (case parse_elements n cs of
                    Inl e \<Rightarrow> Inl e
                  | Inr (vs, r') \<Rightarrow> Inr (v # vs, r'))
               else if c = CHR '']'' then Inr ([v], cs)
               else Inl SyntaxError))"
| "parse_members 0 s = Inl SyntaxError"
| "parse_members (Suc n) s =
     (case skip_ws s of
        [] \<Rightarrow> Inl SyntaxError
      | q # qs \<Rightarrow>
          if q \<noteq> CHR 0x22 then Inl SyntaxError
          else
            (case parse_chars qs of
               Inl e \<Rightarrow> Inl e
             | Inr (k, r) \<Rightarrow>
                 (case skip_ws r of
                    [] \<Rightarrow> Inl SyntaxError
                  | c # cs \<Rightarrow>
                      if c \<noteq> CHR '':'' then Inl SyntaxError
                      else
                        (case parse_value n cs of
                           Inl e \<Rightarrow> Inl e
                         | Inr (v, r') \<Rightarrow>
                             (case skip_ws r' of
                                [] \<Rightarrow> Inl SyntaxError
                              | d # ds \<Rightarrow>
                                  if d = CHR '','' then
                                    (case parse_members n ds of
                                       Inl e \<Rightarrow> Inl e
                                     | Inr (ms, r'') \<Rightarrow> Inr ((k, v) # ms, r''))
                                  else if d = CHR ''}'' then Inr ([(k, v)], ds)
                                  else Inl SyntaxError)))))"

definition JSON_parse :: "string \<Rightarrow> error + json" where
  \<comment> \<open>\<^verbatim>\<open>JSON.parse(text)\<close> without reviver: one value with white space around it\<close>
  "JSON_parse s =
     (case parse_value (2 * length s + 2) s of
        Inl e \<Rightarrow> Inl e
      | Inr (v, r) \<Rightarrow> if skip_ws r = [] then Inr v else Inl SyntaxError)"

section \<open>The history file\<close>

text \<open>
  \<^verbatim>\<open>HISTORY_FILE\<close> is the one path the program reads and writes. The file system is
  that file: its text when it exists, and whether the process may read and write it.
\<close>

record filesystem =
  file_text :: "string option"
  can_read :: bool
  can_write :: bool

definition existsSync :: "filesystem \<Rightarrow> bool" where
  "existsSync fs = (file_text fs \<noteq> None)"

definition readFileSync :: "filesystem \<Rightarrow> error + string" where
  \<comment> \<open>\<^verbatim>\<open>fs.readFileSync(HISTORY_FILE, 'utf-8')\<close>\<close>
  "readFileSync fs =
     (case file_text fs of
        None \<Rightarrow> Inl ENOENT
      | Some t \<Rightarrow> if can_read fs then Inr t else Inl EACCES)"

definition writeFileSync :: "string \<Rightarrow> filesystem \<Rightarrow> error + filesystem" where
  \<comment> \<open>\<^verbatim>\<open>fs.writeFileSync(HISTORY_FILE, data)\<close>: replaces the whole text\<close>
  "writeFileSync data fs =
     (if can_write fs then Inr (fs\<lparr>file_text := Some data\<rparr>) else Inl EACCES)"

section \<open>History\<close>

datatype role = User | Assistant

record Message =
  role :: role
  content :: string
  timestamp :: string

definition role_string :: "role \<Rightarrow> string" where
  "role_string r = (case r of User \<Rightarrow> ''user'' | Assistant \<Rightarrow> ''assistant'')"

definition message_json :: "Message \<Rightarrow> json" where
  \<comment> \<open>the object \<^verbatim>\<open>{ role, content, timestamp }\<close>\<close>
  "message_json m =
     JObject [(''role'', JString (role_string (role m))),
              (''content'', JString (content m)),
              (''timestamp'', JString (timestamp m))]"

definition as_Message :: "json \<Rightarrow> Message option" where
  \<comment> \<open>the values of \<^verbatim>\<open>interface Message\<close>, which no code of the program checks\<close>
  "as_Message v =
     (case v of
        JObject [(k1, JString r), (k2, JString c), (k3, JString t)] \<Rightarrow>
          if k1 = ''role'' \<and> k2 = ''content'' \<and> k3 = ''timestamp'' then
            (if r = ''user'' then Some \<lparr>role = User, content = c, timestamp = t\<rparr>
             else if r = ''assistant'' then Some \<lparr>role = Assistant, content = c, timestamp = t\<rparr>
             else None)
          else None
      | _ \<Rightarrow> None)"

definition MAX_HISTORY :: nat where
  "MAX_HISTORY = 100"

definition history_lines :: "string \<Rightarrow> string list" where
  \<comment> \<open>\<^verbatim>\<open>text.trim().split('\n').filter(Boolean)\<close>: a string is falsy when empty\<close>
  "history_lines t = filter (\<lambda>l. l \<noteq> []) (split (CHR 0x0A) (trim t))"

fun map_JSON_parse :: "string list \<Rightarrow> error + json list" where
  \<comment> \<open>\<^verbatim>\<open>lines.map(line => JSON.parse(line))\<close>: the first line that throws ends the map\<close>
  "map_JSON_parse [] = Inr []"
| "map_JSON_parse (l # ls) =
     (case JSON_parse l of
        Inl e \<Rightarrow> Inl e
      | Inr v \<Rightarrow> (case map_JSON_parse ls of Inl e \<Rightarrow> Inl e | Inr vs \<Rightarrow> Inr (v # vs)))"

definition loadHistory :: "filesystem \<Rightarrow> error + json list" where
  "loadHistory fs =
     (if \<not> existsSync fs then Inr []
      else (case readFileSync fs of
              Inl e \<Rightarrow> Inl e
            | Inr t \<Rightarrow> map_JSON_parse (history_lines t)))"

definition saveHistory :: "(string \<Rightarrow> string) \<Rightarrow> json list \<Rightarrow> filesystem \<Rightarrow> error + filesystem" where
  "saveHistory num history fs =
     writeFileSync (join [CHR 0x0A] (map (JSON_stringify num) history)) fs"

section \<open>The process and its surroundings\<close>

record MessageParam =
  param_role :: "json option"
  param_content :: "json option"

record request =
  model :: string
  max_tokens :: nat
  messages :: "MessageParam list"
  system :: string

datatype other_block = ToolUse | Thinking | RedactedThinking | ServerToolUse | WebSearchToolResult

datatype content_block = TextBlock string | OtherBlock other_block

datatype event =
    ModelInvoked request        \<comment> \<open>\<^verbatim>\<open>anthropic.messages.create\<close> was called\<close>
  | ChatActionSent int string   \<comment> \<open>a chat action reached the chat\<close>
  | ReplySent int string        \<comment> \<open>a reply reached the chat\<close>

text \<open>
  The state of a run: the history file, how many times the clock has been read
  (\<^verbatim>\<open>new Date()\<close>), and what has happened on the two network interfaces so far.
  Console output is not part of the state.
\<close>

record world =
  disk :: filesystem
  clock :: nat
  trace :: "event list"

text \<open>
  What the program does not decide: the run-time's printing of numbers, the instant of
  each \<^verbatim>\<open>new Date()\<close> as \<^verbatim>\<open>toISOString\<close> prints it, and the answers of the model
  and of Telegram, which may depend on everything that has happened before.
\<close>

record env =
  number_text :: "string \<Rightarrow> string"
  date_iso :: "nat \<Rightarrow> string"
  messages_create :: "event list \<Rightarrow> request \<Rightarrow> error + content_block list"
  telegram_action :: "event list \<Rightarrow> int \<Rightarrow> string \<Rightarrow> error option"
  telegram_message :: "event list \<Rightarrow> int \<Rightarrow> string \<Rightarrow> error option"

type_synonym 'a io = "world \<Rightarrow> (error + 'a) \<times> world"

definition return :: "'a \<Rightarrow> 'a io" where
  "return x w = (Inr x, w)"

definition bind :: "'a io \<Rightarrow> ('a \<Rightarrow> 'b io) \<Rightarrow> 'b io" where
  \<comment> \<open>one statement after another: an exception of the first skips the second\<close>
  "bind m f w = (case m w of (Inl e, w') \<Rightarrow> (Inl e, w') | (Inr x, w') \<Rightarrow> f x w')"

definition try_catch :: "'a io \<Rightarrow> (error \<Rightarrow> 'a io) \<Rightarrow> 'a io" where
  "try_catch m h w = (case m w of (Inl e, w') \<Rightarrow> h e w' | (Inr x, w') \<Rightarrow> (Inr x, w'))"

definition new_Date :: "env \<Rightarrow> string io" where
  \<comment> \<open>\<^verbatim>\<open>new Date()\<close>, as \<^verbatim>\<open>toISOString\<close> prints it\<close>
  "new_Date env w = (Inr (date_iso env (clock w)), w\<lparr>clock := clock w + 1\<rparr>)"

definition sendChatAction :: "env \<Rightarrow> int \<Rightarrow> string \<Rightarrow> unit io" where
  "sendChatAction env chatId action w =
     (case telegram_action env (trace w) chatId action of
        Some e \<Rightarrow> (Inl e, w)
      | None \<Rightarrow> (Inr (), w\<lparr>trace := trace w @ [ChatActionSent chatId action]\<rparr>))"

definition reply :: "env \<Rightarrow> int \<Rightarrow> string \<Rightarrow> unit io" where
  \<comment> \<open>\<^verbatim>\<open>ctx.reply(text)\<close>, to the chat of the update\<close>
  "reply env chatId t w =
     (case telegram_message env (trace w) chatId t of
        Some e \<Rightarrow> (Inl e, w)
      | None \<Rightarrow> (Inr (), w\<lparr>trace := trace w @ [ReplySent chatId t]\<rparr>))"

definition ASSISTANT_NAME :: string where
  "ASSISTANT_NAME = ''JARVIS''"

definition addToHistory_max :: "nat \<Rightarrow> env \<Rightarrow> role \<Rightarrow> string \<Rightarrow> unit io" where
  \<comment> \<open>the body of \<^verbatim>\<open>addToHistory\<close>, for a value of the constant \<^verbatim>\<open>MAX_HISTORY\<close>\<close>
  "addToHistory_max maxh env r c w =
     (case loadHistory (disk w) of
        Inl e \<Rightarrow> (Inl e, w)
      | Inr history \<Rightarrow>
          (let w1 = w\<lparr>clock := clock w + 1\<rparr>;
               pushed = history @ [message_json \<lparr>role = r, content = c,
                                                 timestamp = date_iso env (clock w)\<rparr>];
               kept = (if length pushed > maxh then drop (length pushed - maxh) pushed
                       else pushed)
           in case saveHistory (number_text env) kept (disk w1) of
                Inl e \<Rightarrow> (Inl e, w1)
              | Inr d \<Rightarrow> (Inr (), w1\<lparr>disk := d\<rparr>)))"

definition addToHistory :: "env \<Rightarrow> role \<Rightarrow> string \<Rightarrow> unit io" where
  "addToHistory = addToHistory_max MAX_HISTORY"

section \<open>Claude\<close>

definition property :: "string \<Rightarrow> json \<Rightarrow> error + json option" where
  \<comment> \<open>\<^verbatim>\<open>m.key\<close> on a value \<^verbatim>\<open>JSON.parse\<close> returned, for a key that no prototype
      defines (\<^verbatim>\<open>role\<close> and \<^verbatim>\<open>content\<close> are such): reading a property of
      \<^verbatim>\<open>null\<close> throws, a missing property is \<^verbatim>\<open>undefined\<close> (\<open>None\<close>)\<close>
  "property k v =
     (case v of
        JNull \<Rightarrow> Inl TypeError
      | JObject ps \<Rightarrow> Inr (map_of ps k)
      | _ \<Rightarrow> Inr None)"

fun to_params :: "json list \<Rightarrow> error + MessageParam list" where
  \<comment> \<open>\<^verbatim>\<open>.map(m => ({ role: m.role, content: m.content }))\<close>\<close>
  "to_params [] = Inr []"
| "to_params (m # ms) =
     (case property ''role'' m of
        Inl e \<Rightarrow> Inl e
      | Inr r \<Rightarrow>
          (case property ''content'' m of
             Inl e \<Rightarrow> Inl e
           | Inr c \<Rightarrow>
               (case to_params ms of
                  Inl e \<Rightarrow> Inl e
                | Inr ps \<Rightarrow> Inr (\<lparr>param_role = r, param_content = c\<rparr> # ps))))"

definition block_type :: "content_block \<Rightarrow> string" where
  "block_type b =
     (case b of
        TextBlock t \<Rightarrow> ''text''
      | OtherBlock ToolUse \<Rightarrow> ''tool_use''
      | OtherBlock Thinking \<Rightarrow> ''thinking''
      | OtherBlock RedactedThinking \<Rightarrow> ''redacted_thinking''
      | OtherBlock ServerToolUse \<Rightarrow> ''server_tool_use''
      | OtherBlock WebSearchToolResult \<Rightarrow> ''web_search_tool_result'')"

definition response_text :: "content_block list \<Rightarrow> string" where
  \<comment> \<open>lines 136 and 137: the first block of type \<^verbatim>\<open>text\<close>, its text when it has
      one, the fixed sentence otherwise\<close>
  "response_text blocks =
     (case find (\<lambda>b. block_type b = ''text'') blocks of
        None \<Rightarrow> ''Sorry, I could not generate a response.''
      | Some (TextBlock t) \<Rightarrow> t
      | Some (OtherBlock k) \<Rightarrow> ''Sorry, I could not generate a response.'')"

definition system_prompt :: string where
  "system_prompt = ''You are '' @ ASSISTANT_NAME @
     '', a helpful AI assistant. Respond concisely and conversationally. Personality: 50% Alfred from Batman, 50% JARVIS from Iron Man.''"

definition create_params :: "MessageParam list \<Rightarrow> request" where
  \<comment> \<open>the argument of \<^verbatim>\<open>anthropic.messages.create\<close>, lines 129 to 134\<close>
  "create_params msgs =
     \<lparr>model = ''claude-sonnet-4-5'', max_tokens = 4096, messages = msgs,
      system = system_prompt\<rparr>"

definition getResponse :: "env \<Rightarrow> string \<Rightarrow> string io" where
  "getResponse env userMessage w =
     (case loadHistory (disk w) of
        Inl e \<Rightarrow> (Inl e, w)
      | Inr history \<Rightarrow>
          (case to_params (slice_last 20 history) of
             Inl e \<Rightarrow> (Inl e, w)
           | Inr recent \<Rightarrow>
               (let req = create_params
                            (recent @ [\<lparr>param_role = Some (JString ''user''),
                                         param_content = Some (JString userMessage)\<rparr>]);
                    w1 = w\<lparr>trace := trace w @ [ModelInvoked req]\<rparr>
                in case messages_create env (trace w) req of
                     Inl e \<Rightarrow> (Inl e, w1)
                   | Inr blocks \<Rightarrow> (Inr (response_text blocks), w1))))"

section \<open>Telegram\<close>

record TelegramMessage =
  msg_text :: "string option"

record Context =
  message :: "TelegramMessage option"
  chat_id :: "int option"

definition respond_and_record :: "env \<Rightarrow> int \<Rightarrow> string \<Rightarrow> unit io" where
  \<comment> \<open>the \<^verbatim>\<open>try\<close> block, lines 99 to 105; the clock is read for the console line\<close>
  "respond_and_record env chatId t =
     bind (getResponse env t) (\<lambda>response.
     bind (new_Date env) (\<lambda>_.
     bind (reply env chatId (ASSISTANT_NAME @ '': '' @ response)) (\<lambda>_.
     bind (addToHistory env User t) (\<lambda>_.
     addToHistory env Assistant response))))"

definition apology :: string where
  "apology = ASSISTANT_NAME @ '': Sorry, something went wrong.''"

definition on_message_text :: "env \<Rightarrow> Context \<Rightarrow> unit io" where
  \<comment> \<open>the handler of \<^verbatim>\<open>bot.on('message:text', ...)\<close>, lines 77 to 110\<close>
  "on_message_text env ctx =
     (case message ctx of
        None \<Rightarrow> return ()
      | Some msg \<Rightarrow>
          (case msg_text msg of
             None \<Rightarrow> return ()
           | Some t \<Rightarrow>
               if t = [] then return ()
               else
                 (case chat_id ctx of
                    None \<Rightarrow> return ()
                  | Some chatId \<Rightarrow>
                      if chatId = 0 then return ()
                      else if startsWith t ''/'' \<and> t \<noteq> ''/start'' then return ()
                      else
                        bind (new_Date env) (\<lambda>_.
                        bind (sendChatAction env chatId ''typing'') (\<lambda>_.
                        try_catch (respond_and_record env chatId t)
                          (\<lambda>err. reply env chatId apology))))))"

section \<open>Notions used in the statements and proofs\<close>

definition save_then_load :: "(string \<Rightarrow> string) \<Rightarrow> json list \<Rightarrow> filesystem \<Rightarrow> error + json list" where
  \<comment> \<open>\<^verbatim>\<open>saveHistory(history)\<close> followed by \<^verbatim>\<open>loadHistory()\<close>\<close>
  "save_then_load num history fs =
     (case saveHistory num history fs of Inl e \<Rightarrow> Inl e | Inr fs' \<Rightarrow> loadHistory fs')"

fun append_all :: "(role \<Rightarrow> string \<Rightarrow> unit io) \<Rightarrow> (role \<times> string) list \<Rightarrow> unit io" where
  \<comment> \<open>one call of the given append after another, for a list of roles and contents\<close>
  "append_all app [] = return ()"
| "append_all app (rc # rcs) = bind (app (fst rc) (snd rc)) (\<lambda>_. append_all app rcs)"

fun appended :: "env \<Rightarrow> nat \<Rightarrow> (role \<times> string) list \<Rightarrow> Message list" where
  \<comment> \<open>the records of such calls, the first of them at clock reading \<open>k\<close>\<close>
  "appended env k [] = []"
| "appended env k (rc # rcs) =
     \<lparr>role = fst rc, content = snd rc, timestamp = date_iso env k\<rparr> # appended env (Suc k) rcs"

definition nonempty_lines :: "string \<Rightarrow> string list" where
  \<comment> \<open>the lines of a text that are not empty\<close>
  "nonempty_lines t = filter (\<lambda>l. l \<noteq> []) (split (CHR 0x0A) t)"

definition context_entry :: "Message \<Rightarrow> MessageParam" where
  \<comment> \<open>a record reduced to role and content\<close>
  "context_entry m =
     \<lparr>param_role = Some (JString (role_string (role m))),
      param_content = Some (JString (content m))\<rparr>"

definition user_entry :: "string \<Rightarrow> MessageParam" where
  \<comment> \<open>the entry \<^verbatim>\<open>{ role: 'user', content: userMessage }\<close>\<close>
  "user_entry t = \<lparr>param_role = Some (JString ''user''), param_content = Some (JString t)\<rparr>"

definition context_request :: "Message list \<Rightarrow> string \<Rightarrow> request" where
  \<comment> \<open>the request for a new message when the file holds the records \<open>h\<close>\<close>
  "context_request h t = create_params (map context_entry (slice_last 20 h) @ [user_entry t])"

definition accepted :: "string \<Rightarrow> bool" where
  \<comment> \<open>a text the handler answers: not empty and not a command other than \<^verbatim>\<open>/start\<close>\<close>
  "accepted t = (t \<noteq> [] \<and> \<not> (startsWith t ''/'' \<and> t \<noteq> ''/start''))"

definition typing_world :: "world \<Rightarrow> int \<Rightarrow> world" where
  \<comment> \<open>the world at the \<^verbatim>\<open>try\<close>: the clock read once, the typing indicator shown\<close>
  "typing_world w c = w\<lparr>clock := clock w + 1, trace := trace w @ [ChatActionSent c ''typing'']\<rparr>"

definition answer :: "string \<Rightarrow> string" where
  \<comment> \<open>the text of the reply for a response\<close>
  "answer response = ASSISTANT_NAME @ '': '' @ response"

definition replied_world :: "world \<Rightarrow> int \<Rightarrow> request \<Rightarrow> string \<Rightarrow> world" where
  \<comment> \<open>the world after line 102: the clock read twice, the model invoked, the reply sent\<close>
  "replied_world w c req response =
     w\<lparr>clock := clock w + 2,
       trace := trace w @ [ChatActionSent c ''typing'', ModelInvoked req,
                           ReplySent c (answer response)]\<rparr>"

fun replies :: "event list \<Rightarrow> string list" where
  \<comment> \<open>the replies that reached the chat, in order\<close>
  "replies [] = []"
| "replies (ReplySent c t # es) = t # replies es"
| "replies (e # es) = replies es"

definition first_text :: "content_block list \<Rightarrow> string" where
  \<comment> \<open>the specification's words: the text of the first textual block, the fixed
      sentence when there is none\<close>
  "first_text blocks =
     (case List.map_filter (\<lambda>b. case b of TextBlock t \<Rightarrow> Some t | OtherBlock k \<Rightarrow> None) blocks of
        [] \<Rightarrow> ''Sorry, I could not generate a response.''
      | t # ts \<Rightarrow> t)"

definition quote_rest :: "string \<Rightarrow> string" where
  \<comment> \<open>a quoted string without its opening quote\<close>
  "quote_rest s = concat (map quote_char s) @ [CHR 0x22]"

definition message_members :: "Message \<Rightarrow> string" where
  \<comment> \<open>the line of a record after its opening brace\<close>
  "message_members m =
     quote ''role'' @ CHR '':'' # quote (role_string (role m)) @ CHR '','' #
     quote ''content'' @ CHR '':'' # quote (content m) @ CHR '','' #
     quote ''timestamp'' @ CHR '':'' # quote (timestamp m) @ ''}''"

definition message_lines :: "(string \<Rightarrow> string) \<Rightarrow> Message list \<Rightarrow> string list" where
  \<comment> \<open>the lines \<^verbatim>\<open>saveHistory\<close> writes for a list of records\<close>
  "message_lines num ms = map (JSON_stringify num) (map message_json ms)"

subsection \<open>A concrete run, for the examples\<close>

definition example_disk :: filesystem where
  "example_disk = \<lparr>file_text = None, can_read = True, can_write = True\<rparr>"

definition example_world :: world where
  "example_world = \<lparr>disk = example_disk, clock = 0, trace = []\<rparr>"

definition example_env :: env where
  \<comment> \<open>the clock advances by a second at each reading; the model answers with a
      thinking block and a text block; Telegram accepts everything\<close>
  "example_env =
     \<lparr>number_text = id,
      date_iso = (\<lambda>k. ''2026-01-01T00:00:0'' @ [''0123456789'' ! (k mod 10)] @ ''.000Z''),
      messages_create = (\<lambda>tr req. Inr [OtherBlock Thinking, TextBlock ''Good evening.'']),
      telegram_action = (\<lambda>tr chatId action. None),
      telegram_message = (\<lambda>tr chatId t. None)\<rparr>"

definition silent_env :: env where
  \<comment> \<open>as \<open>example_env\<close>, with a model that answers without a text block\<close>
  "silent_env =
     example_env\<lparr>messages_create := (\<lambda>tr req. Inr [OtherBlock ToolUse, OtherBlock Thinking])\<rparr>"

definition failing_env :: env where
  \<comment> \<open>as \<open>example_env\<close>, with a model call that is rejected\<close>
  "failing_env = example_env\<lparr>messages_create := (\<lambda>tr req. Inl APIError)\<rparr>"

definition readonly_world :: world where
  \<comment> \<open>as \<open>example_world\<close>, but the history file cannot be written\<close>
  "readonly_world = example_world\<lparr>disk := example_disk\<lparr>can_write := False\<rparr>\<rparr>"

definition record_A :: Message where
  "record_A = \<lparr>role = User, content = ''hi'', timestamp = ''2026-01-01T00:00:00.000Z''\<rparr>"

definition record_B :: Message where
  "record_B = \<lparr>role = Assistant, content = ''Good evening.'',
               timestamp = ''2026-01-01T00:00:02.000Z''\<rparr>"

definition line_A :: string where
  \<comment> \<open>the line of \<open>record_A\<close>\<close>
  \<open>line_A = ''{"role":"user","content":"hi","timestamp":"2026-01-01T00:00:00.000Z"}''\<close>

definition line_B :: string where
  \<comment> \<open>the line of \<open>record_B\<close>\<close>
  \<open>line_B = ''{"role":"assistant","content":"Good evening.","timestamp":"2026-01-01T00:00:02.000Z"}''\<close>

definition line_cut :: string where
  \<comment> \<open>a line that was cut short\<close>
  \<open>line_cut = ''{"role":"user","content":"h''\<close>

definition file_of :: "string \<Rightarrow> filesystem" where
  \<comment> \<open>a history file with the given text\<close>
  "file_of t = \<lparr>file_text = Some t, can_read = True, can_write = True\<rparr>"

definition example_records :: "Message list" where
  "example_records = [record_A, record_B, record_A]"

definition stored_world :: "Message list \<Rightarrow> world" where
  \<comment> \<open>the example world with a history file that holds the given records\<close>
  "stored_world h =
     \<lparr>disk = \<lparr>file_text = Some (join [CHR 0x0A] (message_lines id h)),
               can_read = True, can_write = True\<rparr>,
      clock = 0, trace = []\<rparr>"

definition example_update :: "string \<Rightarrow> Context" where
  "example_update t = \<lparr>message = Some \<lparr>msg_text = Some t\<rparr>, chat_id = Some 42\<rparr>"

section \<open>The bound of the parser\<close>

lemma length_skip_ws: "length (skip_ws s) \<le> length s"
  by (simp add: skip_ws_def length_dropWhile_le)

lemma skip_ws_Cons_length: "skip_ws s = c # cs \<Longrightarrow> length cs < length s"
  using length_skip_ws [of s] by simp

lemma parse_chars_shorter: "parse_chars cs = Inr (x, r) \<Longrightarrow> length r < length cs"
proof (induction cs arbitrary: x rule: parse_chars.induct)
  case 1
  then show ?case by simp
next
  case (2 c cs)
  show ?case
    using "2.prems" "2.IH"
    by (fastforce simp: cons_result_def
          split: if_splits list.splits option.splits sum.splits prod.splits)
qed

lemma length_drop_digits: "length (dropWhile is_digit xs) \<le> length xs"
  by (rule length_dropWhile_le)

lemma number_sign_shorter: "number_sign s = (sg, r) \<Longrightarrow> length r \<le> length s"
  by (auto simp: number_sign_def split: list.splits if_splits)

lemma number_int_shorter: "number_int s = Some (ds, r) \<Longrightarrow> length r < length s"
  using length_drop_digits [of "tl s"]
  by (auto simp: number_int_def split: list.splits if_splits)

lemma number_frac_shorter: "number_frac s = Some (fs, r) \<Longrightarrow> length r \<le> length s"
  using length_drop_digits [of "tl s"]
  by (auto simp: number_frac_def split: list.splits if_splits)

lemma number_exp_shorter: "number_exp s = Some (es, r) \<Longrightarrow> length r \<le> length s"
  using length_drop_digits [of "tl s"] length_drop_digits [of "tl (tl s)"]
  by (auto simp: number_exp_def split: list.splits if_splits)

lemma parse_number_shorter: "parse_number s = Some (l, r) \<Longrightarrow> length r < length s"
  by (auto simp: parse_number_def split: prod.splits option.splits
        dest!: number_sign_shorter number_int_shorter number_frac_shorter number_exp_shorter)


lemma parse_shorter:
  "parse_value n s = Inr (v, r) \<Longrightarrow> length r < length s"
  "parse_elements n s = Inr (vs, r) \<Longrightarrow> length r < length s"
  "parse_members n s = Inr (ms, r) \<Longrightarrow> length r < length s"
proof (induction n s and n s and n s arbitrary: v r and vs r and ms r
       rule: parse_value_parse_elements_parse_members.induct)
  case (1 s)
  then show ?case by simp
next
  case (2 n s)
  show ?case
  proof (cases "skip_ws s")
    case Nil
    then show ?thesis using "2.prems" by simp
  next
    case (Cons c cs)
    note len = skip_ws_Cons_length [OF Cons]
    consider (obj) "c = CHR ''{''" | (arr) "c \<noteq> CHR ''{''" "c = CHR ''[''"
      | (str) "c \<noteq> CHR ''{''" "c \<noteq> CHR ''[''" "c = CHR 0x22"
      | (other) "c \<noteq> CHR ''{''" "c \<noteq> CHR ''[''" "c \<noteq> CHR 0x22" by blast
    then show ?thesis
    proof cases
      case obj
      show ?thesis
      proof (cases "skip_ws cs")
        case Nil
        then show ?thesis using "2.prems" Cons obj by simp
      next
        case (Cons d ds)
        note len' = skip_ws_Cons_length [OF Cons]
        show ?thesis
        proof (cases "d = CHR ''}''")
          case True
          then show ?thesis using "2.prems" \<open>skip_ws s = c # cs\<close> Cons obj len len' by auto
        next
          case False
          then obtain ms where "parse_members n cs = Inr (ms, r)"
            using "2.prems" \<open>skip_ws s = c # cs\<close> Cons obj
            by (auto split: sum.splits prod.splits)
          then have "length r < length cs"
            using "2.IH"(1) \<open>skip_ws s = c # cs\<close> Cons obj False by blast
          then show ?thesis using len by simp
        qed
      qed
    next
      case arr
      show ?thesis
      proof (cases "skip_ws cs")
        case Nil
        then show ?thesis using "2.prems" Cons arr by simp
      next
        case (Cons d ds)
        note len' = skip_ws_Cons_length [OF Cons]
        show ?thesis
        proof (cases "d = CHR '']''")
          case True
          then show ?thesis using "2.prems" \<open>skip_ws s = c # cs\<close> Cons arr len len' by auto
        next
          case False
          then obtain vs where "parse_elements n cs = Inr (vs, r)"
            using "2.prems" \<open>skip_ws s = c # cs\<close> Cons arr
            by (auto split: sum.splits prod.splits)
          then have "length r < length cs"
            using "2.IH"(2) \<open>skip_ws s = c # cs\<close> Cons arr False by blast
          then show ?thesis using len by simp
        qed
      qed
    next
      case str
      then obtain x where "parse_chars cs = Inr (x, r)"
        using "2.prems" Cons by (auto split: sum.splits prod.splits)
      then show ?thesis using parse_chars_shorter len by fastforce
    next
      case other
      have "length r < length (c # cs)"
        using "2.prems" Cons other parse_number_shorter [of "c # cs" _ r]
        by (auto split: if_splits option.splits prod.splits)
      then show ?thesis using len by simp
    qed
  qed
next
  case (3 s)
  then show ?case by simp
next
  case (4 n s)
  from "4.prems" obtain v r1 where v: "parse_value n s = Inr (v, r1)"
    by (auto split: sum.splits prod.splits)
  then have l1: "length r1 < length s" using "4.IH"(1) by blast
  show ?case
  proof (cases "skip_ws r1")
    case Nil
    then show ?thesis using "4.prems" v by simp
  next
    case (Cons c cs)
    note len = skip_ws_Cons_length [OF Cons]
    show ?thesis
    proof (cases "c = CHR '',''")
      case True
      then obtain vs' where "parse_elements n cs = Inr (vs', r)"
        using "4.prems" v Cons by (auto split: sum.splits prod.splits)
      then have "length r < length cs" using "4.IH"(2) v Cons True by blast
      then show ?thesis using len l1 by simp
    next
      case False
      then show ?thesis using "4.prems" v Cons len l1 by (auto split: if_splits)
    qed
  qed
next
  case (5 s)
  then show ?case by simp
next
  case (6 n s)
  from "6.prems" obtain q qs where q: "skip_ws s = q # qs" "q = CHR 0x22"
    by (cases "skip_ws s") (auto split: if_splits)
  from "6.prems" q obtain k r0 where k: "parse_chars qs = Inr (k, r0)"
    by (auto split: sum.splits prod.splits)
  from "6.prems" q k obtain c cs where c: "skip_ws r0 = c # cs" "c = CHR '':''"
    by (cases "skip_ws r0") (auto split: if_splits)
  from "6.prems" q k c obtain v r1 where v: "parse_value n cs = Inr (v, r1)"
    by (auto split: sum.splits prod.splits)
  from "6.prems" q k c v obtain d ds where d: "skip_ws r1 = d # ds"
    by (cases "skip_ws r1") auto
  have l0: "length qs < length s" using q(1) by (rule skip_ws_Cons_length)
  have l1: "length r0 < length qs" using k by (rule parse_chars_shorter)
  have l2: "length cs < length r0" using c(1) by (rule skip_ws_Cons_length)
  have l3: "length r1 < length cs" using "6.IH"(1) q k c v by blast
  have l4: "length ds < length r1" using d by (rule skip_ws_Cons_length)
  show ?case
  proof (cases "d = CHR '',''")
    case True
    then obtain ms' where "parse_members n ds = Inr (ms', r)"
      using "6.prems" q k c v d by (auto split: sum.splits prod.splits)
    then have "length r < length ds" using "6.IH"(2) q k c v d True by blast
    then show ?thesis using l0 l1 l2 l3 l4 by simp
  next
    case False
    then have "r = ds" using "6.prems" q k c v d by (auto split: if_splits)
    then show ?thesis using l0 l1 l2 l3 l4 by simp
  qed
qed


lemma fuel_step:
  "(\<forall>s. 2 * length s + 1 \<le> n \<longrightarrow> parse_value (Suc n) s = parse_value n s)
   \<and> (\<forall>s. 2 * length s + 2 \<le> n \<longrightarrow> parse_elements (Suc n) s = parse_elements n s)
   \<and> (\<forall>s. 2 * length s + 2 \<le> n \<longrightarrow> parse_members (Suc n) s = parse_members n s)"
proof (induction n)
  case 0
  show ?case by simp
next
  case (Suc k)
  then have ihv: "2 * length s + 1 \<le> k \<Longrightarrow> parse_value (Suc k) s = parse_value k s"
    and ihe: "2 * length s + 2 \<le> k \<Longrightarrow> parse_elements (Suc k) s = parse_elements k s"
    and ihm: "2 * length s + 2 \<le> k \<Longrightarrow> parse_members (Suc k) s = parse_members k s"
    for s by blast+
  have v: "parse_value (Suc (Suc k)) s = parse_value (Suc k) s"
    if b: "2 * length s + 1 \<le> Suc k" for s
  proof (cases "skip_ws s")
    case Nil
    then show ?thesis by simp
  next
    case (Cons c cs)
    have "length cs < length s" using Cons by (rule skip_ws_Cons_length)
    then have "2 * length cs + 2 \<le> k" using b by simp
    then have "parse_elements (Suc k) cs = parse_elements k cs"
      and "parse_members (Suc k) cs = parse_members k cs"
      using ihe ihm by blast+
    then show ?thesis
      by (simp add: Cons del: parse_elements.simps parse_members.simps split: list.split)
  qed
  have e: "parse_elements (Suc (Suc k)) s = parse_elements (Suc k) s"
    if b: "2 * length s + 2 \<le> Suc k" for s
  proof -
    have pv: "parse_value (Suc k) s = parse_value k s" using b by (intro ihv) simp
    show ?thesis
    proof (cases "parse_value k s")
      case (Inl err)
      then show ?thesis using pv by (simp del: parse_value.simps)
    next
      case (Inr p)
      obtain x r1 where p: "p = (x, r1)" by (cases p)
      have l1: "length r1 < length s" using Inr p parse_shorter(1) by blast
      show ?thesis
      proof (cases "skip_ws r1")
        case Nil
        then show ?thesis using pv Inr p by (simp del: parse_value.simps)
      next
        case (Cons c cs)
        have "length cs < length r1" using Cons by (rule skip_ws_Cons_length)
        then have "2 * length cs + 2 \<le> k" using b l1 by simp
        then have "parse_elements (Suc k) cs = parse_elements k cs" by (rule ihe)
        then show ?thesis
          using pv Inr p Cons
          by (simp del: parse_value.simps parse_elements.simps add: parse_elements.simps(2) [of "Suc k" s] parse_elements.simps(2) [of k s])
      qed
    qed
  qed
  have m: "parse_members (Suc (Suc k)) s = parse_members (Suc k) s"
    if b: "2 * length s + 2 \<le> Suc k" for s
  proof -
    note unfold = parse_members.simps(2) [of "Suc k" s] parse_members.simps(2) [of k s]
    show ?thesis
    proof (cases "skip_ws s")
      case Nil
      then show ?thesis by (simp add: unfold del: parse_value.simps parse_members.simps)
    next
      case q: (Cons q qs)
      have l0: "length qs < length s" using q by (rule skip_ws_Cons_length)
      show ?thesis
      proof (cases "parse_chars qs")
        case Inl
        then show ?thesis
          using q by (simp add: unfold del: parse_value.simps parse_members.simps)
      next
        case (Inr p0)
        obtain key r0 where p0: "p0 = (key, r0)" by (cases p0)
        have l1: "length r0 < length qs" using Inr p0 parse_chars_shorter by blast
        show ?thesis
        proof (cases "skip_ws r0")
          case Nil
          then show ?thesis
            using q Inr p0 by (simp add: unfold del: parse_value.simps parse_members.simps)
        next
          case c: (Cons c cs)
          have l2: "length cs < length r0" using c by (rule skip_ws_Cons_length)
          have pv: "parse_value (Suc k) cs = parse_value k cs"
            using b l0 l1 l2 by (intro ihv) simp
          show ?thesis
          proof (cases "parse_value k cs")
            case Inl
            then show ?thesis
              using q Inr p0 c pv
              by (simp add: unfold del: parse_value.simps parse_members.simps)
          next
            case v1: (Inr p1)
            obtain x r1 where p1: "p1 = (x, r1)" by (cases p1)
            have l3: "length r1 < length cs" using v1 p1 parse_shorter(1) by blast
            show ?thesis
            proof (cases "skip_ws r1")
              case Nil
              then show ?thesis
                using q Inr p0 c pv v1 p1
                by (simp add: unfold del: parse_value.simps parse_members.simps)
            next
              case d: (Cons d ds)
              have "length ds < length r1" using d by (rule skip_ws_Cons_length)
              then have "2 * length ds + 2 \<le> k" using b l0 l1 l2 l3 by simp
              then have "parse_members (Suc k) ds = parse_members k ds" by (rule ihm)
              then show ?thesis
                using q Inr p0 c pv v1 p1 d
                by (simp add: unfold del: parse_value.simps parse_members.simps)
            qed
          qed
        qed
      qed
    qed
  qed
  show ?case using v e m by blast
qed

lemma parse_value_fuel:
  "2 * length s + 1 \<le> n \<Longrightarrow> parse_value (n + k) s = parse_value n s"
proof (induction k)
  case 0
  show ?case by simp
next
  case (Suc k)
  have "2 * length s + 1 \<le> n + k" using Suc.prems by simp
  then have "parse_value (Suc (n + k)) s = parse_value (n + k) s"
    using fuel_step [of "n + k"] by blast
  then show ?case using Suc by simp
qed

lemma JSON_parse_fuel:
  assumes "2 * length s + 1 \<le> n"
  shows "JSON_parse s =
     (case parse_value n s of
        Inl e \<Rightarrow> Inl e
      | Inr (v, r) \<Rightarrow> if skip_ws r = [] then Inr v else Inl SyntaxError)"
proof -
  have "parse_value (2 * length s + 2) s = parse_value (2 * length s + 1) s"
    using parse_value_fuel [of s "2 * length s + 1" 1] by simp
  moreover have "parse_value n s = parse_value (2 * length s + 1) s"
    using parse_value_fuel [of s "2 * length s + 1" "n - (2 * length s + 1)"] assms by simp
  ultimately show ?thesis by (simp add: JSON_parse_def del: parse_value.simps)
qed

section \<open>Printing and parsing a record\<close>

lemma hex_digits_decoded: "list_all (\<lambda>n. hex_value (hex_digit n) = Some n) [0..<16]"
  by code_simp

lemma hex_value_hex_digit: "n < 16 \<Longrightarrow> hex_value (hex_digit n) = Some n"
  using hex_digits_decoded by (simp add: list_all_iff)

lemma char_of_code: "char_of (code c) = c"
  by (simp add: code_def)

lemma parse_chars_quote_char:
  "parse_chars (quote_char c @ rest) = cons_result c (parse_chars rest)"
proof -
  have hz: "hex_value (CHR ''0'') = Some 0" by (simp add: hex_value_def code_def)
  show ?thesis
    by (simp add: unescape_def hz hex_value_hex_digit char_of_code)
qed

lemma parse_chars_quoted:
  "parse_chars (concat (map quote_char s) @ CHR 0x22 # rest) = Inr (s, rest)"
proof (induction s)
  case Nil
  show ?case by simp
next
  case (Cons c s)
  have "parse_chars (concat (map quote_char (c # s)) @ CHR 0x22 # rest)
      = parse_chars (quote_char c @ (concat (map quote_char s) @ CHR 0x22 # rest))"
    by simp
  also have "\<dots> = cons_result c (parse_chars (concat (map quote_char s) @ CHR 0x22 # rest))"
    by (rule parse_chars_quote_char)
  also have "\<dots> = Inr (c # s, rest)"
    by (simp add: Cons.IH cons_result_def)
  finally show ?case .
qed

lemma quote_eq: "quote s = CHR 0x22 # quote_rest s"
  by (simp add: quote_def quote_rest_def)

lemma parse_chars_quote_rest: "parse_chars (quote_rest s @ rest) = Inr (s, rest)"
  using parse_chars_quoted [of s rest] by (simp add: quote_rest_def)

lemma skip_ws_Cons: "\<not> json_space c \<Longrightarrow> skip_ws (c # r) = c # r"
  by (simp add: skip_ws_def)

lemma not_json_space [simp]:
  "\<not> json_space (CHR 0x22)" "\<not> json_space (CHR '':'')" "\<not> json_space (CHR '','')"
  "\<not> json_space (CHR ''{'')" "\<not> json_space (CHR ''}'')"
  by (simp_all add: json_space_def)

lemma parse_members_last:
  "parse_members (Suc (Suc n)) (quote k @ CHR '':'' # quote s @ CHR ''}'' # rest) =
     Inr ([(k, JString s)], rest)"
  by (simp add: quote_eq skip_ws_Cons parse_chars_quote_rest)

lemma parse_members_more:
  "parse_members (Suc (Suc n)) (quote k @ CHR '':'' # quote s @ CHR '','' # rest) =
     (case parse_members (Suc n) rest of
        Inl e \<Rightarrow> Inl e
      | Inr (ms, r) \<Rightarrow> Inr ((k, JString s) # ms, r))"
  by (simp add: quote_eq skip_ws_Cons parse_chars_quote_rest)

lemma stringify_message:
  "JSON_stringify num (message_json m) = CHR ''{'' # message_members m"
  by (simp add: message_json_def message_members_def)

lemma parse_members_message:
  "parse_members (Suc (Suc (Suc (Suc n)))) (message_members m @ rest) =
     Inr ([(''role'', JString (role_string (role m))), (''content'', JString (content m)),
           (''timestamp'', JString (timestamp m))], rest)"
  by (simp add: message_members_def parse_members_more parse_members_last
        del: parse_members.simps parse_value.simps)

lemma skip_ws_message_members: "skip_ws (message_members m @ rest) = message_members m @ rest"
  by (simp add: message_members_def quote_eq skip_ws_Cons)

lemma message_members_Cons: "message_members m = CHR 0x22 # tl (message_members m)"
  by (simp add: message_members_def quote_eq)

lemma array_index_letters [simp]:
  "array_index ''role'' = None" "array_index ''content'' = None" "array_index ''timestamp'' = None"
  by (simp_all add: array_index_def is_digit_def code_def)

lemma make_object_message:
  "make_object [(''role'', r), (''content'', c), (''timestamp'', t)] =
     JObject [(''role'', r), (''content'', c), (''timestamp'', t)]"
  by (simp add: make_object_def own_properties_def)

lemma parse_value_object:
  "skip_ws cs = d # ds \<Longrightarrow> d \<noteq> CHR ''}'' \<Longrightarrow>
   parse_value (Suc k) (CHR ''{'' # cs) =
     (case parse_members k cs of Inl e \<Rightarrow> Inl e | Inr (ms, r) \<Rightarrow> Inr (make_object ms, r))"
  by (simp add: skip_ws_Cons del: parse_members.simps)

lemma parse_value_message:
  "parse_value (Suc (Suc (Suc (Suc (Suc n))))) (JSON_stringify num (message_json m) @ rest) =
     Inr (message_json m, rest)"
proof -
  have "skip_ws (message_members m @ rest) = CHR 0x22 # (tl (message_members m) @ rest)"
    using skip_ws_message_members [of m rest] message_members_Cons [of m] by simp
  then have "parse_value (Suc (Suc (Suc (Suc (Suc n))))) (CHR ''{'' # (message_members m @ rest)) =
     (case parse_members (Suc (Suc (Suc (Suc n)))) (message_members m @ rest) of
        Inl e \<Rightarrow> Inl e | Inr (ms, r) \<Rightarrow> Inr (make_object ms, r))"
    by (rule parse_value_object) simp
  then show ?thesis
    unfolding stringify_message
    by (simp add: parse_members_message make_object_message message_json_def
          del: parse_members.simps parse_value.simps)
qed

lemma JSON_parse_message:
  "JSON_parse (JSON_stringify num (message_json m)) = Inr (message_json m)"
proof -
  let ?l = "JSON_stringify num (message_json m)"
  have "4 \<le> length ?l" by (simp add: stringify_message message_members_def quote_eq)
  then obtain n where n: "2 * length ?l + 2 = Suc (Suc (Suc (Suc (Suc n))))"
    by (metis add_2_eq_Suc' le_Suc_ex mult_2 add_Suc_right numeral_2_eq_2 numeral_Bit0 add_Suc)
  show ?thesis
    unfolding JSON_parse_def n
    using parse_value_message [of n num m "[]"]
    by (simp add: skip_ws_def del: parse_value.simps)
qed

lemma split_no_sep: "d \<notin> set l \<Longrightarrow> split d l = [l]"
  by (induction l) auto

lemma split_append_sep: "d \<notin> set l \<Longrightarrow> split d (l @ d # r) = l # split d r"
  by (induction l) auto

lemma split_join:
  "ls \<noteq> [] \<Longrightarrow> \<forall>l\<in>set ls. d \<notin> set l \<Longrightarrow> split d (join [d] ls) = ls"
proof (induction ls)
  case Nil
  then show ?case by simp
next
  case (Cons x xs)
  show ?case
  proof (cases xs)
    case Nil
    then show ?thesis using Cons.prems by (simp add: split_no_sep)
  next
    case (Cons y ys)
    then have "split d (join [d] xs) = xs" using Cons.IH Cons.prems by simp
    then show ?thesis using Cons Cons.prems by (simp add: split_append_sep)
  qed
qed

lemma trim_id: "t \<noteq> [] \<Longrightarrow> \<not> js_space (hd t) \<Longrightarrow> \<not> js_space (last t) \<Longrightarrow> trim t = t"
proof -
  assume a: "t \<noteq> []" "\<not> js_space (hd t)" "\<not> js_space (last t)"
  then have "dropWhile js_space t = t" by (cases t) auto
  moreover have "dropWhile js_space (rev t) = rev t"
    using a by (cases "rev t") (auto simp: last_rev[symmetric] hd_rev)
  ultimately show ?thesis by (simp add: trim_def)
qed

lemma hd_join: "x \<noteq> [] \<Longrightarrow> hd (join sep (x # xs)) = hd x"
  by (cases xs) auto

lemma last_join: "ls \<noteq> [] \<Longrightarrow> last ls \<noteq> [] \<Longrightarrow> last (join sep ls) = last (last ls)"
proof (induction ls)
  case Nil
  then show ?case by simp
next
  case (Cons x xs)
  show ?case
  proof (cases xs)
    case Nil
    then show ?thesis by simp
  next
    case (Cons y ys)
    then have ih: "last (join sep xs) = last (last xs)" using Cons.IH Cons.prems by simp
    have "join sep xs \<noteq> []"
    proof
      assume e: "join sep xs = []"
      have "xs \<noteq> []" using Cons by simp
      then show False using e Cons.prems by (induction sep xs rule: join.induct) auto
    qed
    then show ?thesis using Cons ih by simp
  qed
qed

lemma join_nonempty: "ls \<noteq> [] \<Longrightarrow> hd ls \<noteq> [] \<Longrightarrow> join sep ls \<noteq> []"
  by (induction sep ls rule: join.induct) auto

lemma hex_digit_in: "hex_digit n \<in> set ''0123456789abcdef''"
  unfolding hex_digit_def by (rule nth_mem) simp

lemma hex_digit_not_newline: "hex_digit n \<noteq> CHR 0x0A"
  using hex_digit_in [of n] by auto

lemma newline_notin_quote_char: "CHR 0x0A \<notin> set (quote_char c)"
  using hex_digit_not_newline [of "code c div 16"] hex_digit_not_newline [of "code c mod 16"]
  by (simp add: eq_commute)

lemma newline_notin_quote: "CHR 0x0A \<notin> set (quote s)"
  by (simp add: quote_def newline_notin_quote_char del: quote_char.simps)

lemma newline_notin_message: "CHR 0x0A \<notin> set (JSON_stringify num (message_json m))"
  unfolding stringify_message
  by (simp add: message_members_def newline_notin_quote)

lemma message_line_ends:
  "JSON_stringify num (message_json m) \<noteq> []"
  "hd (JSON_stringify num (message_json m)) = CHR ''{''"
  "last (JSON_stringify num (message_json m)) = CHR ''}''"
  unfolding stringify_message by (simp_all add: message_members_def)

lemma history_lines_join:
  "history_lines (join [CHR 0x0A] (message_lines num ms)) = message_lines num ms"
proof (cases ms)
  case Nil
  then show ?thesis by (simp add: history_lines_def trim_def message_lines_def)
next
  case (Cons m ms')
  let ?ls = "message_lines num ms"
  let ?t = "join [CHR 0x0A] ?ls"
  have ne: "?ls \<noteq> []" using Cons by (simp add: message_lines_def)
  have each: "\<forall>l\<in>set ?ls. l \<noteq> [] \<and> CHR 0x0A \<notin> set l"
    by (auto simp: message_lines_def message_line_ends newline_notin_message)
  have hd_ne: "hd ?ls \<noteq> []" using ne each by (cases ?ls) auto
  have last_ne: "last ?ls \<noteq> []" using ne each by (meson last_in_set)
  have t_ne: "?t \<noteq> []" using ne hd_ne by (rule join_nonempty)
  have "hd ?t = CHR ''{''"
    using Cons by (simp add: message_lines_def hd_join message_line_ends)
  moreover have "last ?t = CHR ''}''"
  proof -
    have "last ?ls = JSON_stringify num (message_json (last ms))"
      using Cons by (simp add: message_lines_def last_map)
    then show ?thesis using last_join [OF ne last_ne] by (simp add: message_line_ends)
  qed
  ultimately have "trim ?t = ?t"
    using t_ne by (intro trim_id) (simp_all add: js_space_def)
  moreover have "split (CHR 0x0A) ?t = ?ls"
    using ne each by (intro split_join) auto
  moreover have "filter (\<lambda>l. l \<noteq> []) ?ls = ?ls"
    using each by (simp add: filter_id_conv)
  ultimately show ?thesis by (simp add: history_lines_def)
qed

lemma map_JSON_parse_lines:
  "map_JSON_parse (message_lines num ms) = Inr (map message_json ms)"
  by (induction ms) (simp_all add: message_lines_def JSON_parse_message)

lemma loadHistory_lines:
  "file_text fs = Some (join [CHR 0x0A] (message_lines num ms)) \<Longrightarrow> can_read fs \<Longrightarrow>
   loadHistory fs = Inr (map message_json ms)"
  by (simp add: loadHistory_def existsSync_def readFileSync_def history_lines_join
        map_JSON_parse_lines)

lemma loadHistory_saved:
  "can_read fs \<Longrightarrow>
   loadHistory (fs\<lparr>file_text := Some (join [CHR 0x0A] (message_lines num ms))\<rparr>)
     = Inr (map message_json ms)"
  by (rule loadHistory_lines) simp_all

lemma saveHistory_messages:
  "can_write fs \<Longrightarrow>
   saveHistory num (map message_json ms) fs
     = Inr (fs\<lparr>file_text := Some (join [CHR 0x0A] (message_lines num ms))\<rparr>)"
  by (simp add: saveHistory_def writeFileSync_def message_lines_def)

section \<open>Facts about the operations\<close>

lemma as_Message_message_json: "as_Message (message_json m) = Some m"
  by (cases "role m") (simp_all add: as_Message_def message_json_def role_string_def)

lemma slice_last_map: "slice_last k (map f xs) = map f (slice_last k xs)"
  by (simp add: slice_last_def drop_map)

lemma length_slice_last: "length (slice_last k xs) = min (length xs) k"
  by (simp add: slice_last_def)

lemma to_params_messages: "to_params (map message_json ms) = Inr (map context_entry ms)"
  by (induction ms) (simp_all add: property_def message_json_def context_entry_def)

lemma block_type_text: "block_type b = ''text'' \<longleftrightarrow> (\<exists>t. b = TextBlock t)"
  by (cases b) (auto simp: block_type_def split: other_block.splits)

lemma response_text_first: "response_text blocks = first_text blocks"
proof (induction blocks)
  case Nil
  show ?case by (simp add: response_text_def first_text_def List.map_filter_simps)
next
  case (Cons b bs)
  show ?case
  proof (cases b)
    case (TextBlock t)
    then show ?thesis
      by (simp add: response_text_def first_text_def List.map_filter_simps block_type_def)
  next
    case (OtherBlock k)
    then have "block_type b \<noteq> ''text''" using block_type_text [of b] by simp
    then show ?thesis using Cons OtherBlock
      by (simp add: response_text_def first_text_def List.map_filter_simps)
  qed
qed

lemma save_then_load_messages:
  "can_write fs \<Longrightarrow> can_read fs \<Longrightarrow>
   save_then_load num (map message_json ms) fs = Inr (map message_json ms)"
  by (simp add: save_then_load_def saveHistory_messages loadHistory_saved)

lemma getResponse_messages:
  assumes "loadHistory (disk w) = Inr (map message_json h)"
  shows "getResponse env t w =
     (let req = create_params (map context_entry (slice_last 20 h) @ [user_entry t])
      in (map_sum id response_text (messages_create env (trace w) req),
          w\<lparr>trace := trace w @ [ModelInvoked req]\<rparr>))"
  using assms
  by (simp add: getResponse_def slice_last_map to_params_messages Let_def user_entry_def
        split: sum.splits)

lemma loadHistory_stored_world: "loadHistory (disk (stored_world h)) = Inr (map message_json h)"
  by (rule loadHistory_lines [where num = id]) (simp_all add: stored_world_def)

lemma loadHistory_example_world: "loadHistory (disk example_world) = Inr (map message_json [])"
  by (simp add: loadHistory_def existsSync_def example_world_def example_disk_def)

lemma slice_last_all: "length xs \<le> k \<Longrightarrow> slice_last k xs = xs"
  by (simp add: slice_last_def)

lemma slice_last_twice: "slice_last k (slice_last k xs @ ys) = slice_last k (xs @ ys)"
proof -
  have "length xs + length ys - (length xs - k + k) + (length xs - k)
      = length xs + length ys - k" by arith
  then show ?thesis by (simp add: slice_last_def)
qed

lemma splice_front:
  "(if k < length p then drop (length p - k) p else p) = slice_last k p"
  by (simp add: slice_last_def)

lemma addToHistory_max_step:
  assumes "loadHistory (disk w) = Inr (map message_json h)"
    and "can_write (disk w)"
  shows "addToHistory_max maxh env r c w =
     (Inr (),
      w\<lparr>clock := clock w + 1,
        disk := (disk w)\<lparr>file_text := Some (join [CHR 0x0A]
          (message_lines (number_text env)
             (slice_last maxh (h @ [\<lparr>role = r, content = c, timestamp = date_iso env (clock w)\<rparr>]))))\<rparr>\<rparr>)"
proof -
  let ?m = "\<lparr>role = r, content = c, timestamp = date_iso env (clock w)\<rparr>"
  have "map message_json h @ [message_json ?m] = map message_json (h @ [?m])" by simp
  then show ?thesis
    using assms
    unfolding addToHistory_max_def Let_def splice_front
    by (simp add: saveHistory_def writeFileSync_def message_lines_def slice_last_map
          del: map_append)
qed

lemma append_all_messages:
  assumes "loadHistory (disk w) = Inr (map message_json h)"
    and "can_read (disk w)" and "can_write (disk w)" and "length h \<le> maxh"
  shows "fst (append_all (addToHistory_max maxh env) rcs w) = Inr ()
     \<and> loadHistory (disk (snd (append_all (addToHistory_max maxh env) rcs w)))
         = Inr (map message_json (slice_last maxh (h @ appended env (clock w) rcs)))
     \<and> can_read (disk (snd (append_all (addToHistory_max maxh env) rcs w)))
     \<and> can_write (disk (snd (append_all (addToHistory_max maxh env) rcs w)))
     \<and> clock (snd (append_all (addToHistory_max maxh env) rcs w)) = clock w + length rcs
     \<and> trace (snd (append_all (addToHistory_max maxh env) rcs w)) = trace w"
  using assms
proof (induction rcs arbitrary: w h)
  case Nil
  then show ?case by (simp add: return_def slice_last_all)
next
  case (Cons rc rcs)
  let ?m = "\<lparr>role = fst rc, content = snd rc, timestamp = date_iso env (clock w)\<rparr>"
  let ?h' = "slice_last maxh (h @ [?m])"
  let ?w' = "w\<lparr>clock := clock w + 1,
        disk := (disk w)\<lparr>file_text := Some (join [CHR 0x0A]
          (message_lines (number_text env) ?h'))\<rparr>\<rparr>"
  have step: "addToHistory_max maxh env (fst rc) (snd rc) w = (Inr (), ?w')"
    using Cons.prems(1,3) by (rule addToHistory_max_step)
  have l: "loadHistory (disk ?w') = Inr (map message_json ?h')"
    using Cons.prems(2) by (simp add: loadHistory_saved)
  have r: "can_read (disk ?w')" and wr: "can_write (disk ?w')"
    using Cons.prems by simp_all
  have len: "length ?h' \<le> maxh" by (simp add: length_slice_last)
  note ih = Cons.IH [OF l r wr len]
  have run: "append_all (addToHistory_max maxh env) (rc # rcs) w
      = append_all (addToHistory_max maxh env) rcs ?w'"
    by (simp add: bind_def step)
  have "slice_last maxh (?h' @ appended env (clock ?w') rcs)
      = slice_last maxh (h @ appended env (clock w) (rc # rcs))"
    by (simp add: slice_last_twice)
  then show ?case using ih unfolding run by simp
qed


subsection \<open>The handler\<close>

lemma on_message_text_try:
  assumes "msg_text msg = Some t" and "accepted t" and "c \<noteq> 0"
    and "telegram_action env (trace w) c ''typing'' = None"
  shows "on_message_text env \<lparr>message = Some msg, chat_id = Some c\<rparr> w =
     try_catch (respond_and_record env c t) (\<lambda>err. reply env c apology) (typing_world w c)"
  using assms
  by (auto simp: on_message_text_def accepted_def bind_def new_Date_def sendChatAction_def
        typing_world_def)

lemma getResponse_disk: "disk (snd (getResponse env t w)) = disk w"
  by (simp add: getResponse_def Let_def split: sum.splits)

lemma respond_and_record_fails:
  assumes "fst (getResponse env t w) = Inl e"
  shows "respond_and_record env c t w = (Inl e, snd (getResponse env t w))"
  using assms by (cases "getResponse env t w") (simp add: respond_and_record_def bind_def)

lemma respond_and_record_replied:
  assumes "loadHistory (disk w) = Inr (map message_json h)"
    and "messages_create env (trace w @ [ChatActionSent c ''typing'']) (context_request h t)
           = Inr blocks"
    and "telegram_message env
           (trace w @ [ChatActionSent c ''typing'', ModelInvoked (context_request h t)]) c
           (answer (first_text blocks)) = None"
  shows "respond_and_record env c t (typing_world w c) =
     bind (addToHistory env User t) (\<lambda>_. addToHistory env Assistant (first_text blocks))
       (replied_world w c (context_request h t) (first_text blocks))"
proof -
  have l: "loadHistory (disk (typing_world w c)) = Inr (map message_json h)"
    using assms(1) by (simp add: typing_world_def)
  have g: "getResponse env t (typing_world w c) =
      (Inr (first_text blocks),
       (typing_world w c)\<lparr>trace := trace (typing_world w c) @ [ModelInvoked (context_request h t)]\<rparr>)"
    using getResponse_messages [OF l, of env t] assms(2)
    by (simp add: Let_def context_request_def typing_world_def response_text_first)
  show ?thesis
    using assms(3)
    apply (simp add: respond_and_record_def bind_def g)
    apply (simp add: bind_def new_Date_def reply_def typing_world_def replied_world_def answer_def)
    done
qed

lemma two_appends:
  assumes "loadHistory (disk w) = Inr (map message_json h)"
    and "can_read (disk w)" and "can_write (disk w)"
  shows "fst (bind (addToHistory env User t) (\<lambda>_. addToHistory env Assistant r) w) = Inr ()"
    and "loadHistory (disk (snd (bind (addToHistory env User t) (\<lambda>_. addToHistory env Assistant r) w)))
      = Inr (map message_json (slice_last MAX_HISTORY
          (h @ [\<lparr>role = User, content = t, timestamp = date_iso env (clock w)\<rparr>,
                \<lparr>role = Assistant, content = r, timestamp = date_iso env (clock w + 1)\<rparr>])))"
    and "trace (snd (bind (addToHistory env User t) (\<lambda>_. addToHistory env Assistant r) w)) = trace w"
proof -
  let ?u = "\<lparr>role = User, content = t, timestamp = date_iso env (clock w)\<rparr>"
  let ?a = "\<lparr>role = Assistant, content = r, timestamp = date_iso env (clock w + 1)\<rparr>"
  let ?h1 = "slice_last MAX_HISTORY (h @ [?u])"
  let ?w1 = "w\<lparr>clock := clock w + 1,
        disk := (disk w)\<lparr>file_text := Some (join [CHR 0x0A]
          (message_lines (number_text env) ?h1))\<rparr>\<rparr>"
  have s1: "addToHistory env User t w = (Inr (), ?w1)"
    unfolding addToHistory_def using assms(1,3) by (rule addToHistory_max_step)
  have l1: "loadHistory (disk ?w1) = Inr (map message_json ?h1)"
    using assms(2) by (simp add: loadHistory_saved)
  have c1: "can_write (disk ?w1)" and r1: "can_read (disk ?w1)" using assms by simp_all
  let ?h2 = "slice_last MAX_HISTORY (?h1 @ [\<lparr>role = Assistant, content = r, timestamp = date_iso env (clock ?w1)\<rparr>])"
  let ?w2 = "?w1\<lparr>clock := clock ?w1 + 1,
        disk := (disk ?w1)\<lparr>file_text := Some (join [CHR 0x0A]
          (message_lines (number_text env) ?h2))\<rparr>\<rparr>"
  have s2: "addToHistory env Assistant r ?w1 = (Inr (), ?w2)"
    unfolding addToHistory_def using l1 c1 by (rule addToHistory_max_step)
  have run: "bind (addToHistory env User t) (\<lambda>_. addToHistory env Assistant r) w = (Inr (), ?w2)"
    unfolding bind_def s1 prod.case sum.case by (rule s2)
  have l2: "loadHistory (disk ?w2) = Inr (map message_json ?h2)"
    using r1 by (simp add: loadHistory_saved)
  have h2: "?h2 = slice_last MAX_HISTORY (h @ [?u, ?a])"
    using slice_last_twice [of MAX_HISTORY "h @ [?u]" "[?a]"] by simp
  have final: "loadHistory (disk ?w2) = Inr (map message_json (slice_last MAX_HISTORY (h @ [?u, ?a])))"
    using l2 unfolding h2 .
  show "fst (bind (addToHistory env User t) (\<lambda>_. addToHistory env Assistant r) w) = Inr ()"
    by (simp add: run)
  show "loadHistory (disk (snd (bind (addToHistory env User t) (\<lambda>_. addToHistory env Assistant r) w)))
      = Inr (map message_json (slice_last MAX_HISTORY (h @ [?u, ?a])))"
    unfolding run snd_conv by (rule final)
  show "trace (snd (bind (addToHistory env User t) (\<lambda>_. addToHistory env Assistant r) w)) = trace w"
    by (simp add: run)
qed


lemma try_catch_success: "fst (m w) = Inr x \<Longrightarrow> try_catch m h w = m w"
  by (cases "m w") (simp add: try_catch_def)

lemma try_catch_failure: "fst (m w) = Inl e \<Longrightarrow> try_catch m h w = h e (snd (m w))"
  by (cases "m w") (simp add: try_catch_def)

lemma replies_append: "replies (xs @ ys) = replies xs @ replies ys"
  by (induction xs rule: replies.induct) simp_all

lemma on_message_text_recorded:
  assumes "msg_text msg = Some t" and "accepted t" and "c \<noteq> 0"
    and "telegram_action env (trace w) c ''typing'' = None"
    and "loadHistory (disk w) = Inr (map message_json h)"
    and "can_read (disk w)" and "can_write (disk w)"
    and "messages_create env (trace w @ [ChatActionSent c ''typing'']) (context_request h t)
           = Inr blocks"
    and "telegram_message env
           (trace w @ [ChatActionSent c ''typing'', ModelInvoked (context_request h t)]) c
           (answer (first_text blocks)) = None"
  shows "on_message_text env \<lparr>message = Some msg, chat_id = Some c\<rparr> w =
           bind (addToHistory env User t) (\<lambda>_. addToHistory env Assistant (first_text blocks))
             (replied_world w c (context_request h t) (first_text blocks))
     \<and> fst (on_message_text env \<lparr>message = Some msg, chat_id = Some c\<rparr> w) = Inr ()
     \<and> loadHistory (disk (snd (on_message_text env \<lparr>message = Some msg, chat_id = Some c\<rparr> w)))
         = Inr (map message_json (slice_last MAX_HISTORY
             (h @ [\<lparr>role = User, content = t, timestamp = date_iso env (clock w + 2)\<rparr>,
                   \<lparr>role = Assistant, content = first_text blocks,
                    timestamp = date_iso env (clock w + 3)\<rparr>])))
     \<and> trace (snd (on_message_text env \<lparr>message = Some msg, chat_id = Some c\<rparr> w))
         = trace w @ [ChatActionSent c ''typing'', ModelInvoked (context_request h t),
                      ReplySent c (answer (first_text blocks))]"
proof -
  let ?w3 = "replied_world w c (context_request h t) (first_text blocks)"
  let ?two = "bind (addToHistory env User t) (\<lambda>_. addToHistory env Assistant (first_text blocks))"
  have l: "loadHistory (disk ?w3) = Inr (map message_json h)"
    and r: "can_read (disk ?w3)" and wr: "can_write (disk ?w3)"
    using assms(5-7) by (simp_all add: replied_world_def)
  note two = two_appends [OF l r wr, of env t "first_text blocks"]
  have body: "respond_and_record env c t (typing_world w c) = ?two ?w3"
    using assms(5,8,9) by (rule respond_and_record_replied)
  have "on_message_text env \<lparr>message = Some msg, chat_id = Some c\<rparr> w
      = try_catch (respond_and_record env c t) (\<lambda>err. reply env c apology) (typing_world w c)"
    using assms(1-4) by (rule on_message_text_try)
  also have "\<dots> = respond_and_record env c t (typing_world w c)"
    using two(1) body by (intro try_catch_success [where x = "()"]) simp
  finally have run: "on_message_text env \<lparr>message = Some msg, chat_id = Some c\<rparr> w = ?two ?w3"
    using body by simp
  have c3: "clock ?w3 = clock w + 2" "clock ?w3 + 1 = clock w + 3"
    by (simp_all add: replied_world_def)
  show ?thesis
    unfolding run using two unfolding c3 by (simp add: replied_world_def eval_nat_numeral)
qed

lemma on_message_text_apology:
  assumes "msg_text msg = Some t" and "accepted t" and "c \<noteq> 0"
    and "telegram_action env (trace w) c ''typing'' = None"
    and "fst (getResponse env t (typing_world w c)) = Inl e"
  shows "on_message_text env \<lparr>message = Some msg, chat_id = Some c\<rparr> w
           = reply env c apology (snd (getResponse env t (typing_world w c)))
     \<and> disk (snd (on_message_text env \<lparr>message = Some msg, chat_id = Some c\<rparr> w)) = disk w
     \<and> replies (trace (snd (on_message_text env \<lparr>message = Some msg, chat_id = Some c\<rparr> w)))
         = replies (trace w) @
           (if telegram_message env (trace (snd (getResponse env t (typing_world w c)))) c apology
               = None
            then [apology] else [])"
proof -
  let ?w2 = "snd (getResponse env t (typing_world w c))"
  have body: "respond_and_record env c t (typing_world w c) = (Inl e, ?w2)"
    using assms(5) by (rule respond_and_record_fails)
  have "on_message_text env \<lparr>message = Some msg, chat_id = Some c\<rparr> w
      = try_catch (respond_and_record env c t) (\<lambda>err. reply env c apology) (typing_world w c)"
    using assms(1-4) by (rule on_message_text_try)
  also have "\<dots> = reply env c apology ?w2"
    using try_catch_failure [of "respond_and_record env c t" "typing_world w c" e
        "\<lambda>err. reply env c apology"] body by simp
  finally have run: "on_message_text env \<lparr>message = Some msg, chat_id = Some c\<rparr> w
      = reply env c apology ?w2" .
  have d: "disk ?w2 = disk w"
    by (simp add: getResponse_disk typing_world_def)
  have t: "replies (trace ?w2) = replies (trace w)"
    by (simp add: getResponse_def typing_world_def Let_def replies_append split: sum.splits)
  show ?thesis
    unfolding run using d t
    by (simp add: reply_def replies_append split: option.splits)
qed

lemma example_run_facts:
  "msg_text \<lparr>msg_text = Some ''hi''\<rparr> = Some ''hi''" "accepted ''hi''" "(42::int) \<noteq> 0"
  "telegram_action example_env (trace example_world) 42 ''typing'' = None"
  "can_read (disk example_world)" "can_write (disk example_world)"
  "messages_create example_env (trace example_world @ [ChatActionSent 42 ''typing''])
     (context_request [] ''hi'') = Inr [OtherBlock Thinking, TextBlock ''Good evening.'']"
  "telegram_message example_env
     (trace example_world @ [ChatActionSent 42 ''typing'', ModelInvoked (context_request [] ''hi'')])
     42 (answer (first_text [OtherBlock Thinking, TextBlock ''Good evening.''])) = None"
  by (simp_all add: accepted_def startsWith_def example_env_def example_world_def example_disk_def)

lemma example_run_values:
  "first_text [OtherBlock Thinking, TextBlock ''Good evening.''] = ''Good evening.''"
  "date_iso example_env (clock example_world) = ''2026-01-01T00:00:00.000Z''"
  "date_iso example_env (clock example_world + 1) = ''2026-01-01T00:00:01.000Z''"
  "date_iso example_env (clock example_world + 2) = ''2026-01-01T00:00:02.000Z''"
  "date_iso example_env (clock example_world + 3) = ''2026-01-01T00:00:03.000Z''"
  by (simp_all add: first_text_def List.map_filter_simps example_env_def example_world_def)

lemma addToHistory_unwritable:
  "loadHistory (disk w) = Inr history \<Longrightarrow> \<not> can_write (disk w) \<Longrightarrow>
   addToHistory env r c w = (Inl EACCES, w\<lparr>clock := clock w + 1\<rparr>)"
  by (simp add: addToHistory_def addToHistory_max_def saveHistory_def writeFileSync_def Let_def)

lemma on_message_text_unwritable:
  assumes "msg_text msg = Some t" and "accepted t" and "c \<noteq> 0"
    and "telegram_action env (trace w) c ''typing'' = None"
    and "loadHistory (disk w) = Inr (map message_json h)"
    and "\<not> can_write (disk w)"
    and "messages_create env (trace w @ [ChatActionSent c ''typing'']) (context_request h t)
           = Inr blocks"
    and "telegram_message env
           (trace w @ [ChatActionSent c ''typing'', ModelInvoked (context_request h t)]) c
           (answer (first_text blocks)) = None"
  shows "respond_and_record env c t (typing_world w c)
           = (Inl EACCES,
              (replied_world w c (context_request h t) (first_text blocks))\<lparr>clock := clock w + 3\<rparr>)"
    and "on_message_text env \<lparr>message = Some msg, chat_id = Some c\<rparr> w
           = reply env c apology
               ((replied_world w c (context_request h t) (first_text blocks))\<lparr>clock := clock w + 3\<rparr>)"
proof -
  let ?w3 = "replied_world w c (context_request h t) (first_text blocks)"
  have l: "loadHistory (disk ?w3) = Inr (map message_json h)"
    and nw: "\<not> can_write (disk ?w3)"
    using assms(5,6) by (simp_all add: replied_world_def)
  have a: "addToHistory env User t ?w3 = (Inl EACCES, ?w3\<lparr>clock := clock ?w3 + 1\<rparr>)"
    using l nw by (rule addToHistory_unwritable)
  have "respond_and_record env c t (typing_world w c)
      = bind (addToHistory env User t) (\<lambda>_. addToHistory env Assistant (first_text blocks)) ?w3"
    using assms(5,7,8) by (rule respond_and_record_replied)
  also have "\<dots> = (Inl EACCES, ?w3\<lparr>clock := clock ?w3 + 1\<rparr>)"
    unfolding bind_def a by simp
  also have "?w3\<lparr>clock := clock ?w3 + 1\<rparr> = ?w3\<lparr>clock := clock w + 3\<rparr>"
    by (simp add: replied_world_def)
  finally show body: "respond_and_record env c t (typing_world w c)
      = (Inl EACCES, ?w3\<lparr>clock := clock w + 3\<rparr>)" .
  have "on_message_text env \<lparr>message = Some msg, chat_id = Some c\<rparr> w
      = try_catch (respond_and_record env c t) (\<lambda>err. reply env c apology) (typing_world w c)"
    using assms(1-4) by (rule on_message_text_try)
  then show "on_message_text env \<lparr>message = Some msg, chat_id = Some c\<rparr> w
      = reply env c apology (?w3\<lparr>clock := clock w + 3\<rparr>)"
    by (simp add: try_catch_def body)
qed

lemma readonly_run_facts:
  "msg_text \<lparr>msg_text = Some ''hi''\<rparr> = Some ''hi''" "accepted ''hi''" "(42::int) \<noteq> 0"
  "telegram_action example_env (trace readonly_world) 42 ''typing'' = None"
  "loadHistory (disk readonly_world) = Inr (map message_json [])"
  "\<not> can_write (disk readonly_world)"
  "messages_create example_env (trace readonly_world @ [ChatActionSent 42 ''typing''])
     (context_request [] ''hi'') = Inr [OtherBlock Thinking, TextBlock ''Good evening.'']"
  "telegram_message example_env
     (trace readonly_world @ [ChatActionSent 42 ''typing'', ModelInvoked (context_request [] ''hi'')])
     42 (answer (first_text [OtherBlock Thinking, TextBlock ''Good evening.''])) = None"
  by (simp_all add: accepted_def startsWith_def example_env_def readonly_world_def
        example_world_def example_disk_def loadHistory_def existsSync_def)

lemma example_reply:
  "reply example_env c t w = (Inr (), w\<lparr>trace := trace w @ [ReplySent c t]\<rparr>)"
  by (simp add: reply_def example_env_def)

subsection \<open>Lines of a text\<close>

lemma split_nonempty: "split d t \<noteq> []"
  by (induction t) (auto split: list.splits)

lemma split_append: "split d (x @ d # y) = split d x @ split d y"
proof (induction x)
  case Nil
  show ?case by simp
next
  case (Cons c x)
  obtain l ls where s: "split d x = l # ls"
    using split_nonempty [of d x] by (cases "split d x") auto
  show ?case using Cons s by simp
qed

lemma split_snoc_other:
  "c \<noteq> d \<Longrightarrow> split d (s @ [c]) = butlast (split d s) @ [last (split d s) @ [c]]"
proof (induction s)
  case Nil
  then show ?case by simp
next
  case (Cons a s)
  obtain l ls where s: "split d s = l # ls"
    using split_nonempty [of d s] by (cases "split d s") auto
  show ?case
  proof (cases "a = d")
    case True
    then show ?thesis using Cons s by simp
  next
    case False
    show ?thesis
    proof (cases ls)
      case Nil
      then show ?thesis using Cons s False by simp
    next
      case (Cons l' ls')
      then show ?thesis using Cons.IH Cons.prems s False by simp
    qed
  qed
qed

lemma split_rev: "split d (rev t) = rev (map rev (split d t))"
proof (induction t)
  case Nil
  show ?case by simp
next
  case (Cons c t)
  obtain l ls where s: "split d t = l # ls"
    using split_nonempty [of d t] by (cases "split d t") auto
  show ?case
  proof (cases "c = d")
    case True
    have "split d (rev t @ [d]) = split d (rev t) @ split d []"
      using split_append [of d "rev t" "[]"] by simp
    then show ?thesis using Cons True by simp
  next
    case False
    have "split d (rev t @ [c]) = butlast (split d (rev t)) @ [last (split d (rev t)) @ [c]]"
      using False by (rule split_snoc_other)
    then show ?thesis using Cons s False by simp
  qed
qed

lemma filter_nonempty_rev:
  "filter (\<lambda>l. l \<noteq> []) (rev (map rev xs)) = rev (map rev (filter (\<lambda>l. l \<noteq> []) xs))"
  by (induction xs) simp_all

lemma nonempty_lines_rev: "nonempty_lines (rev t) = rev (map rev (nonempty_lines t))"
  by (simp add: nonempty_lines_def split_rev filter_nonempty_rev)

lemma newline_space: "js_space (CHR 0x0A)"
  by (simp add: js_space_def)

lemma dropWhile_lines:
  assumes "\<forall>l\<in>set (split (CHR 0x0A) t). l = [] \<or> \<not> js_space (hd l)"
  shows "nonempty_lines (dropWhile js_space t) = nonempty_lines t
         \<and> set (split (CHR 0x0A) (dropWhile js_space t)) \<subseteq> set (split (CHR 0x0A) t)"
  using assms
proof (induction t)
  case Nil
  show ?case by simp
next
  case (Cons c t)
  obtain l ls where s: "split (CHR 0x0A) t = l # ls"
    using split_nonempty [of "CHR 0x0A" t] by (cases "split (CHR 0x0A) t") auto
  show ?case
  proof (cases "c = CHR 0x0A")
    case True
    then have "\<forall>l\<in>set (split (CHR 0x0A) t). l = [] \<or> \<not> js_space (hd l)"
      using Cons.prems by simp
    then show ?thesis
      using Cons.IH True by (auto simp: nonempty_lines_def newline_space)
  next
    case False
    then have "\<not> js_space c" using Cons.prems s by simp
    then show ?thesis by simp
  qed
qed

lemma trim_lines:
  assumes "\<forall>l\<in>set (split (CHR 0x0A) t). l = [] \<or> (\<not> js_space (hd l) \<and> \<not> js_space (last l))"
  shows "nonempty_lines (trim t) = nonempty_lines t"
proof -
  let ?u = "dropWhile js_space t"
  have a: "\<forall>l\<in>set (split (CHR 0x0A) t). l = [] \<or> \<not> js_space (hd l)"
    using assms by blast
  note u = dropWhile_lines [OF a]
  have "\<forall>l\<in>set (split (CHR 0x0A) (rev ?u)). l = [] \<or> \<not> js_space (hd l)"
  proof
    fix l assume "l \<in> set (split (CHR 0x0A) (rev ?u))"
    then obtain l' where l': "l' \<in> set (split (CHR 0x0A) ?u)" "l = rev l'"
      by (auto simp: split_rev)
    then have "l' = [] \<or> \<not> js_space (last l')" using u assms by blast
    then show "l = [] \<or> \<not> js_space (hd l)" using l'(2) by (auto simp: hd_rev)
  qed
  then have "nonempty_lines (dropWhile js_space (rev ?u)) = nonempty_lines (rev ?u)"
    using dropWhile_lines by blast
  then have "nonempty_lines (trim t) = rev (map rev (nonempty_lines (rev ?u)))"
    by (simp add: trim_def nonempty_lines_rev)
  also have "\<dots> = nonempty_lines ?u"
    by (simp add: nonempty_lines_rev rev_map comp_def)
  finally show ?thesis using u by simp
qed

lemma trim_surrounded:
  assumes "list_all js_space pre" and "list_all js_space post"
  shows "trim (pre @ body @ post) = trim body"
proof -
  have p: "dropWhile js_space (pre @ x) = dropWhile js_space x" for x
    using assms(1) by (intro dropWhile_append2) (simp add: list_all_iff)
  have q: "dropWhile js_space (rev post @ x) = dropWhile js_space x" for x
    using assms(2) by (intro dropWhile_append2) (simp add: list_all_iff)
  have q0: "dropWhile js_space post = []"
    using assms(2) by (simp add: list_all_iff)
  show ?thesis
  proof (cases "\<forall>c\<in>set body. js_space c")
    case True
    then have b: "dropWhile js_space body = []" by simp
    have "dropWhile js_space (body @ post) = dropWhile js_space post"
      using True by (intro dropWhile_append2) simp
    then have c: "dropWhile js_space (body @ post) = []" using q0 by simp
    show ?thesis unfolding trim_def p c b by simp
  next
    case False
    then have "dropWhile js_space (body @ post) = dropWhile js_space body @ post"
      by (auto simp: dropWhile_append1)
    then show ?thesis by (simp add: trim_def p q)
  qed
qed

lemma map_JSON_parse_values:
  "\<forall>l\<in>set ls. JSON_parse l = Inr (val l) \<Longrightarrow> map_JSON_parse ls = Inr (map val ls)"
  by (induction ls) simp_all

lemma map_JSON_parse_fails:
  "l \<in> set ls \<Longrightarrow> JSON_parse l = Inl e \<Longrightarrow>
   \<exists>e'. map_JSON_parse ls = Inl e' \<and> (\<exists>l'\<in>set ls. JSON_parse l' = Inl e')"
proof (induction ls)
  case Nil
  then show ?case by simp
next
  case (Cons a ls)
  show ?case
  proof (cases "JSON_parse a")
    case (Inl e0)
    then show ?thesis by auto
  next
    case (Inr v)
    then have "l \<in> set ls" using Cons.prems by auto
    then obtain e' where "map_JSON_parse ls = Inl e'" "\<exists>l'\<in>set ls. JSON_parse l' = Inl e'"
      using Cons.IH Cons.prems(2) by blast
    then show ?thesis using Inr by auto
  qed
qed

lemma history_lines_surrounded:
  assumes "list_all js_space pre" and "list_all js_space post"
    and "\<forall>l\<in>set (split (CHR 0x0A) body).
           l = [] \<or> (\<not> js_space (hd l) \<and> \<not> js_space (last l))"
  shows "history_lines (pre @ body @ post) = nonempty_lines body"
proof -
  have "history_lines (pre @ body @ post) = nonempty_lines (trim (pre @ body @ post))"
    by (simp add: history_lines_def nonempty_lines_def)
  also have "\<dots> = nonempty_lines (trim body)"
    using assms(1,2) by (simp add: trim_surrounded)
  also have "\<dots> = nonempty_lines body"
    using assms(3) by (rule trim_lines)
  finally show ?thesis .
qed

subsection \<open>The example lines\<close>

lemma line_A_eq: "line_A = JSON_stringify id (message_json record_A)"
  by (simp add: line_A_def record_A_def message_json_def role_string_def quote_def code_def)

lemma line_B_eq: "line_B = JSON_stringify id (message_json record_B)"
  by (simp add: line_B_def record_B_def message_json_def role_string_def quote_def code_def)

lemma parse_line_A: "JSON_parse line_A = Inr (message_json record_A)"
  unfolding line_A_eq by (rule JSON_parse_message)

lemma parse_line_B: "JSON_parse line_B = Inr (message_json record_B)"
  unfolding line_B_eq by (rule JSON_parse_message)

lemma parse_42: "JSON_parse ''42'' = Inr (JNumber ''42'')"
  by code_simp

lemma parse_empty: "JSON_parse [] = Inl SyntaxError"
  by code_simp

lemma parse_space: "JSON_parse '' '' = Inl SyntaxError"
  by code_simp

lemma parse_line_cut: "JSON_parse line_cut = Inl SyntaxError"
  unfolding line_cut_def by code_simp

lemma line_ends:
  "line_A \<noteq> []" "line_B \<noteq> []" "line_cut \<noteq> []"
  "\<not> js_space (hd line_A)" "\<not> js_space (last line_A)"
  "\<not> js_space (hd line_B)" "\<not> js_space (last line_B)"
  "\<not> js_space (hd line_cut)" "\<not> js_space (last line_cut)"
  by (simp_all add: line_A_def line_B_def line_cut_def js_space_def)

lemma loadHistory_file_of: "loadHistory (file_of t) = map_JSON_parse (history_lines t)"
  by (simp add: loadHistory_def existsSync_def readFileSync_def file_of_def)

lemma cut_lines:
  "history_lines (line_A @ [CHR 0x0A] @ line_cut @ [CHR 0x0A] @ line_B) = [line_A, line_cut, line_B]"
proof -
  have "trim (line_A @ [CHR 0x0A] @ line_cut @ [CHR 0x0A] @ line_B)
      = line_A @ [CHR 0x0A] @ line_cut @ [CHR 0x0A] @ line_B"
    using line_ends by (intro trim_id) simp_all
  moreover have "split (CHR 0x0A) (line_A @ [CHR 0x0A] @ line_cut @ [CHR 0x0A] @ line_B)
      = [line_A, line_cut, line_B]"
    by (simp add: line_A_def line_B_def line_cut_def)
  ultimately show ?thesis using line_ends by (simp add: history_lines_def)
qed

subsection \<open>Lines with white space around a record\<close>

lemma skip_ws_padding: "list_all json_space a \<Longrightarrow> skip_ws (a @ x) = skip_ws x"
  unfolding skip_ws_def by (intro dropWhile_append2) (simp add: list_all_iff)

lemma skip_ws_all: "list_all json_space b \<Longrightarrow> skip_ws b = []"
  by (simp add: skip_ws_def list_all_iff)

lemma parse_value_skip:
  "skip_ws a = skip_ws b \<Longrightarrow> parse_value (Suc n) a = parse_value (Suc n) b"
  by simp

lemma JSON_parse_message_padded:
  assumes "list_all json_space a" and "list_all json_space b"
  shows "JSON_parse (a @ JSON_stringify num (message_json m) @ b) = Inr (message_json m)"
proof -
  let ?l = "JSON_stringify num (message_json m)"
  have "4 \<le> length ?l" by (simp add: stringify_message message_members_def quote_eq)
  then have "5 \<le> 2 * length (a @ ?l @ b) + 2" by simp
  then obtain n where "2 * length (a @ ?l @ b) + 2 = 5 + n"
    using le_Suc_ex by blast
  then have n: "2 * length (a @ ?l @ b) + 2 = Suc (Suc (Suc (Suc (Suc n))))"
    by simp
  have "parse_value (Suc (Suc (Suc (Suc (Suc n))))) (a @ ?l @ b)
      = parse_value (Suc (Suc (Suc (Suc (Suc n))))) (?l @ b)"
    using assms(1) by (intro parse_value_skip skip_ws_padding)
  also have "\<dots> = Inr (message_json m, b)"
    by (rule parse_value_message)
  finally show ?thesis
    unfolding JSON_parse_def n using assms(2)
    by (simp add: skip_ws_all del: parse_value.simps)
qed

lemma history_lines_padded:
  "list_all js_space pre \<Longrightarrow> list_all js_space post \<Longrightarrow>
   history_lines (pre @ body @ post) = history_lines body"
  by (simp add: history_lines_def trim_surrounded)

lemma parse_line_A_CR: "JSON_parse (line_A @ [CHR 0x0D]) = Inr (message_json record_A)"
  using JSON_parse_message_padded [of "[]" "[CHR 0x0D]" id record_A]
  by (simp add: line_A_eq json_space_def del: JSON_stringify.simps)

lemma parse_SP_line_B: "JSON_parse (CHR '' '' # line_B) = Inr (message_json record_B)"
  using JSON_parse_message_padded [of "[CHR '' '']" "[]" id record_B]
  by (simp add: line_B_eq json_space_def del: JSON_stringify.simps)

lemma crlf_lines:
  "history_lines (line_A @ [CHR 0x0D, CHR 0x0A, CHR 0x0A, CHR '' ''] @ line_B)
     = [line_A @ [CHR 0x0D], CHR '' '' # line_B]"
proof -
  have "trim (line_A @ [CHR 0x0D, CHR 0x0A, CHR 0x0A, CHR '' ''] @ line_B)
      = line_A @ [CHR 0x0D, CHR 0x0A, CHR 0x0A, CHR '' ''] @ line_B"
    using line_ends by (intro trim_id) simp_all
  moreover have "split (CHR 0x0A) (line_A @ [CHR 0x0D, CHR 0x0A, CHR 0x0A, CHR '' ''] @ line_B)
      = [line_A @ [CHR 0x0D], [], CHR '' '' # line_B]"
    by (simp add: line_A_def line_B_def)
  ultimately show ?thesis by (simp add: history_lines_def)
qed

section \<open>The claims\<close>

text \<open>
  C3. Saving a list of message records and loading the file again gives the same list:
  every record comes back with its role, content and timestamp, in the same order,
  repeated records included. The file must be writable and readable.
\<close>

theorem save_load_roundtrip:
  assumes "can_write fs" and "can_read fs"
  shows "save_then_load num (map message_json ms) fs = Inr (map message_json ms)
         \<and> map_sum id (map as_Message) (save_then_load num (map message_json ms) fs)
             = Inr (map Some ms)"
  using assms by (simp add: save_then_load_messages as_Message_message_json)

theorem save_load_roundtrip_example:
  "can_write example_disk \<and> can_read example_disk
   \<and> map_sum id (map as_Message)
         (save_then_load id (map message_json example_records) example_disk)
       = Inr [Some \<lparr>role = User, content = ''hi'', timestamp = ''2026-01-01T00:00:00.000Z''\<rparr>,
              Some \<lparr>role = Assistant, content = ''Good evening.'',
                     timestamp = ''2026-01-01T00:00:02.000Z''\<rparr>,
              Some \<lparr>role = User, content = ''hi'', timestamp = ''2026-01-01T00:00:00.000Z''\<rparr>]"
proof -
  have w: "can_write example_disk" and r: "can_read example_disk"
    by (simp_all add: example_disk_def)
  have "map_sum id (map as_Message)
          (save_then_load id (map message_json example_records) example_disk)
        = Inr (map Some example_records)"
    using save_load_roundtrip [OF w r, of id example_records] by (rule conjunct2)
  then show ?thesis using w r by (simp add: example_records_def record_A_def record_B_def)
qed

text \<open>
  C8. When the history file does not exist, \<open>loadHistory\<close> returns the empty list: it
  does not fail, whatever the permissions. Loading only reads: \<open>loadHistory\<close> returns
  no file system, and \<open>getResponse\<close>, which calls it, leaves the file system as it was,
  so the file still does not exist afterwards.
\<close>

theorem load_without_file:
  assumes "\<not> existsSync (disk w)"
  shows "loadHistory (disk w) = Inr []
         \<and> disk (snd (getResponse env t w)) = disk w"
  using assms
  by (simp add: loadHistory_def getResponse_def slice_last_def Let_def split: sum.splits)

theorem load_without_file_example:
  "\<not> existsSync (disk example_world)
   \<and> loadHistory (disk example_world) = Inr []
   \<and> file_text (disk (snd (getResponse example_env ''hi'' example_world))) = None"
proof -
  have a: "\<not> existsSync (disk example_world)"
    by (simp add: existsSync_def example_world_def example_disk_def)
  show ?thesis
    using load_without_file [OF a, of example_env "''hi''"] a
    by (simp add: example_world_def example_disk_def)
qed

text \<open>
  C9. A text that starts with \<^verbatim>\<open>/\<close> and is not \<^verbatim>\<open>/start\<close> is skipped: the handler
  returns with the world as it was, so nothing was sent to the chat, the model was
  not invoked, the clock was not read and the history file is unchanged.
\<close>

theorem command_ignored:
  assumes "msg_text msg = Some t" and "startsWith t ''/''" and "t \<noteq> ''/start''"
  shows "on_message_text env \<lparr>message = Some msg, chat_id = c\<rparr> w = (Inr (), w)"
  using assms by (simp add: on_message_text_def return_def split: option.splits)

theorem command_ignored_example:
  "msg_text \<lparr>msg_text = Some ''/help''\<rparr> = Some ''/help'' \<and> startsWith ''/help'' ''/''
   \<and> ''/help'' \<noteq> ''/start''
   \<and> on_message_text example_env (example_update ''/help'') example_world
       = (Inr (), example_world)"
proof -
  have a: "msg_text \<lparr>msg_text = Some ''/help''\<rparr> = Some ''/help''" by simp
  have b: "startsWith ''/help'' ''/''" by (simp add: startsWith_def)
  have c: "''/help'' \<noteq> ''/start''" by simp
  show ?thesis
    using command_ignored [OF a b c, of example_env "Some 42" example_world] a b c
    by (simp add: example_update_def)
qed

text \<open>
  C2. When the history file holds the records \<open>h\<close>, the model is invoked once, with
  the last \<open>min (length h) 20\<close> records of \<open>h\<close> in their order, each reduced to role
  and content, followed by one entry for the new user message. The context is taken
  from the file as it is before the exchange is recorded, and \<open>getResponse\<close> does not
  write it: the new message is in the request as its last entry only.
\<close>

theorem request_context:
  assumes "loadHistory (disk w) = Inr (map message_json h)"
  shows "getResponse env t w =
     (map_sum id response_text (messages_create env (trace w) (context_request h t)),
      w\<lparr>trace := trace w @ [ModelInvoked (context_request h t)]\<rparr>)
     \<and> messages (context_request h t) = map context_entry (slice_last 20 h) @ [user_entry t]
     \<and> slice_last 20 h = drop (length h - min (length h) 20) h
     \<and> length (slice_last 20 h) = min (length h) 20
     \<and> disk (snd (getResponse env t w)) = disk w"
proof -
  have "length h - min (length h) 20 = length h - 20" by (simp add: min_def)
  then show ?thesis
    using getResponse_messages [OF assms, of env t]
    by (simp add: Let_def context_request_def create_params_def slice_last_def)
qed

theorem request_context_example:
  "loadHistory (disk (stored_world (record_B # replicate 20 record_A)))
     = Inr (map message_json (record_B # replicate 20 record_A))
   \<and> trace (snd (getResponse example_env ''how are you?''
                (stored_world (record_B # replicate 20 record_A))))
       = [ModelInvoked (context_request (record_B # replicate 20 record_A) ''how are you?'')]
   \<and> messages (context_request (record_B # replicate 20 record_A) ''how are you?'')
       = replicate 20 \<lparr>param_role = Some (JString ''user''),
                        param_content = Some (JString ''hi'')\<rparr>
         @ [\<lparr>param_role = Some (JString ''user''),
              param_content = Some (JString ''how are you?'')\<rparr>]"
proof -
  let ?h = "record_B # replicate 20 record_A"
  have a: "loadHistory (disk (stored_world ?h)) = Inr (map message_json ?h)"
    by (rule loadHistory_stored_world)
  have b: "slice_last 20 ?h = replicate 20 record_A"
    by (simp add: slice_last_def)
  have c: "trace (stored_world ?h) = []"
    by (simp add: stored_world_def)
  note r = request_context [OF a, of example_env "''how are you?''"]
  have "trace (snd (getResponse example_env ''how are you?'' (stored_world ?h)))
       = [ModelInvoked (context_request ?h ''how are you?'')]"
    using r [THEN conjunct1] c by simp
  moreover have "messages (context_request ?h ''how are you?'')
       = replicate 20 \<lparr>param_role = Some (JString ''user''),
                        param_content = Some (JString ''hi'')\<rparr>
         @ [\<lparr>param_role = Some (JString ''user''),
              param_content = Some (JString ''how are you?'')\<rparr>]"
    using r [THEN conjunct2, THEN conjunct1] unfolding b
    by (simp add: record_A_def context_entry_def role_string_def user_entry_def)
  ultimately show ?thesis using a by simp
qed

text \<open>
  C5. When the model's response has no text block, \<open>getResponse\<close> returns the fixed
  sentence; when it has one, \<open>getResponse\<close> returns the text of the first. The history
  file holds records and the model call succeeds.
\<close>

theorem fallback_text:
  assumes "loadHistory (disk w) = Inr (map message_json h)"
    and "messages_create env (trace w) (context_request h t) = Inr blocks"
  shows "fst (getResponse env t w) = Inr (first_text blocks)"
  using getResponse_messages [OF assms(1), of env t] assms(2)
  by (simp add: Let_def response_text_first context_request_def)

theorem fallback_text_example:
  "loadHistory (disk example_world) = Inr (map message_json [])
   \<and> messages_create silent_env (trace example_world) (context_request [] ''hi'')
       = Inr [OtherBlock ToolUse, OtherBlock Thinking]
   \<and> fst (getResponse silent_env ''hi'' example_world)
       = Inr ''Sorry, I could not generate a response.''
   \<and> messages_create example_env (trace example_world) (context_request [] ''hi'')
       = Inr [OtherBlock Thinking, TextBlock ''Good evening.'']
   \<and> fst (getResponse example_env ''hi'' example_world) = Inr ''Good evening.''"
proof -
  note a = loadHistory_example_world
  have b: "messages_create silent_env (trace example_world) (context_request [] ''hi'')
       = Inr [OtherBlock ToolUse, OtherBlock Thinking]"
    by (simp add: silent_env_def)
  have c: "messages_create example_env (trace example_world) (context_request [] ''hi'')
       = Inr [OtherBlock Thinking, TextBlock ''Good evening.'']"
    by (simp add: example_env_def)
  have "fst (getResponse silent_env ''hi'' example_world)
       = Inr (first_text [OtherBlock ToolUse, OtherBlock Thinking])"
    using a b by (rule fallback_text)
  moreover have "fst (getResponse example_env ''hi'' example_world)
       = Inr (first_text [OtherBlock Thinking, TextBlock ''Good evening.''])"
    using a c by (rule fallback_text)
  ultimately show ?thesis
    using a b c by (simp add: first_text_def List.map_filter_simps)
qed

text \<open>
  C1. \<open>addToHistory\<close> is its body \<open>addToHistory_max\<close> at the value 100 of the constant
  \<^verbatim>\<open>MAX_HISTORY\<close>. For every value \<open>maxh\<close> of that constant and every sequence of calls,
  on a file that can be read and written and holds at most \<open>maxh\<close> records \<open>h\<close> (none
  when there is no file): every call succeeds, and afterwards the file holds the last
  \<open>maxh\<close> of the records appended so far (after those of \<open>h\<close>), in the order of the
  calls; their number is the minimum of the number of records appended and \<open>maxh\<close>.
  Every prefix of a sequence of calls is a sequence of calls, so this holds after each
  call. With \<open>maxh = 3\<close>, appending A, B, C, D leaves B, C, D (the example).
\<close>

theorem bounded_history:
  assumes "loadHistory (disk w) = Inr (map message_json h)"
    and "can_read (disk w)" and "can_write (disk w)" and "length h \<le> maxh"
  shows "fst (append_all (addToHistory_max maxh env) rcs w) = Inr ()
     \<and> loadHistory (disk (snd (append_all (addToHistory_max maxh env) rcs w)))
         = Inr (map message_json (slice_last maxh (h @ appended env (clock w) rcs)))
     \<and> length (slice_last maxh (h @ appended env (clock w) rcs))
         = min (length h + length rcs) maxh
     \<and> addToHistory env = addToHistory_max 100 env"
proof -
  have "length (appended env k rcs) = length rcs" for k
    by (induction rcs arbitrary: k) simp_all
  then show ?thesis
    using append_all_messages [OF assms, of env rcs]
    by (simp add: length_slice_last addToHistory_def MAX_HISTORY_def)
qed

theorem bounded_history_example:
  "loadHistory (disk example_world) = Inr (map message_json [])
   \<and> can_read (disk example_world) \<and> can_write (disk example_world) \<and> length [] \<le> (3::nat)
   \<and> loadHistory (disk (snd (append_all (addToHistory_max 3 example_env)
         [(User, ''A''), (Assistant, ''B''), (User, ''C''), (Assistant, ''D'')] example_world)))
      = Inr (map message_json
          [\<lparr>role = Assistant, content = ''B'', timestamp = ''2026-01-01T00:00:01.000Z''\<rparr>,
           \<lparr>role = User, content = ''C'', timestamp = ''2026-01-01T00:00:02.000Z''\<rparr>,
           \<lparr>role = Assistant, content = ''D'', timestamp = ''2026-01-01T00:00:03.000Z''\<rparr>])"
proof -
  note a = loadHistory_example_world
  have b: "can_read (disk example_world)" and c: "can_write (disk example_world)"
    by (simp_all add: example_world_def example_disk_def)
  have d: "length ([] :: Message list) \<le> 3" by simp
  have e: "clock example_world = 0" by (simp add: example_world_def)
  have f: "slice_last 3 ([] @ appended example_env 0
             [(User, ''A''), (Assistant, ''B''), (User, ''C''), (Assistant, ''D'')])
      = [\<lparr>role = Assistant, content = ''B'', timestamp = ''2026-01-01T00:00:01.000Z''\<rparr>,
         \<lparr>role = User, content = ''C'', timestamp = ''2026-01-01T00:00:02.000Z''\<rparr>,
         \<lparr>role = Assistant, content = ''D'', timestamp = ''2026-01-01T00:00:03.000Z''\<rparr>]"
    by (simp add: slice_last_def example_env_def)
  show ?thesis
    using bounded_history [OF a b c d, of example_env
        "[(User, ''A''), (Assistant, ''B''), (User, ''C''), (Assistant, ''D'')]"] a b c
    unfolding e f by simp
qed


text \<open>
  C6, as amended. The claim says that \<^verbatim>\<open>append\<close> takes the timestamp from its caller,
  the arrival time for the user message and the completion time for the reply.
  \<open>addToHistory\<close> takes a role and a content only and reads the clock itself; the
  handler calls it after the reply has been sent. What holds: in a cycle where every
  step succeeds (the typing indicator, the load of a file of records \<open>h\<close> that can be
  read and written, the model call, the reply), the rest of the handler after the reply
  is exactly \<open>addToHistory\<close> for the user message followed by \<open>addToHistory\<close> for the
  response; both succeed, and the file then holds the last \<^verbatim>\<open>MAX_HISTORY\<close> records of
  \<open>h\<close> followed by the user record and the assistant record, whose timestamps are the
  third and fourth clock readings of the cycle, each taken inside its call.
\<close>

theorem exchange_recorded:
  assumes "msg_text msg = Some t" and "accepted t" and "c \<noteq> 0"
    and "telegram_action env (trace w) c ''typing'' = None"
    and "loadHistory (disk w) = Inr (map message_json h)"
    and "can_read (disk w)" and "can_write (disk w)"
    and "messages_create env (trace w @ [ChatActionSent c ''typing'']) (context_request h t)
           = Inr blocks"
    and "telegram_message env
           (trace w @ [ChatActionSent c ''typing'', ModelInvoked (context_request h t)]) c
           (answer (first_text blocks)) = None"
  shows "on_message_text env \<lparr>message = Some msg, chat_id = Some c\<rparr> w =
           bind (addToHistory env User t) (\<lambda>_. addToHistory env Assistant (first_text blocks))
             (replied_world w c (context_request h t) (first_text blocks))
     \<and> fst (on_message_text env \<lparr>message = Some msg, chat_id = Some c\<rparr> w) = Inr ()
     \<and> loadHistory (disk (snd (on_message_text env \<lparr>message = Some msg, chat_id = Some c\<rparr> w)))
         = Inr (map message_json (slice_last MAX_HISTORY
             (h @ [\<lparr>role = User, content = t, timestamp = date_iso env (clock w + 2)\<rparr>,
                   \<lparr>role = Assistant, content = first_text blocks,
                    timestamp = date_iso env (clock w + 3)\<rparr>])))
     \<and> trace (snd (on_message_text env \<lparr>message = Some msg, chat_id = Some c\<rparr> w))
         = trace w @ [ChatActionSent c ''typing'', ModelInvoked (context_request h t),
                      ReplySent c (answer (first_text blocks))]"
  using assms by (rule on_message_text_recorded)

theorem exchange_recorded_example:
  "accepted ''hi''
   \<and> loadHistory (disk example_world) = Inr (map message_json [])
   \<and> can_read (disk example_world) \<and> can_write (disk example_world)
   \<and> fst (on_message_text example_env (example_update ''hi'') example_world) = Inr ()
   \<and> loadHistory (disk (snd (on_message_text example_env (example_update ''hi'') example_world)))
       = Inr (map message_json
           [\<lparr>role = User, content = ''hi'', timestamp = ''2026-01-01T00:00:02.000Z''\<rparr>,
            \<lparr>role = Assistant, content = ''Good evening.'',
             timestamp = ''2026-01-01T00:00:03.000Z''\<rparr>])"
proof -
  note f = example_run_facts
  note a = loadHistory_example_world
  have s: "slice_last MAX_HISTORY ([] @ [x, y]) = [x, y]" for x y :: Message
    by (simp add: slice_last_def MAX_HISTORY_def)
  note r = exchange_recorded [OF f(1-4) a f(5-8), unfolded example_run_values s]
  show ?thesis
    using r [THEN conjunct2, THEN conjunct1] r [THEN conjunct2, THEN conjunct2, THEN conjunct1]
      f(2,5,6) a
    by (simp add: example_update_def)
qed

text \<open>
  The claim C6 as stated fails in the example run: the clock reads 00:00:00 when the
  message is received and 00:00:01 when the response has been obtained, and the
  records stored carry 00:00:02 and 00:00:03.
\<close>

theorem timestamps_counterexample:
  "date_iso example_env (clock example_world) = ''2026-01-01T00:00:00.000Z''
   \<and> date_iso example_env (clock example_world + 1) = ''2026-01-01T00:00:01.000Z''
   \<and> fst (on_message_text example_env (example_update ''hi'') example_world) = Inr ()
   \<and> loadHistory (disk (snd (on_message_text example_env (example_update ''hi'') example_world)))
       = Inr [message_json \<lparr>role = User, content = ''hi'',
                             timestamp = ''2026-01-01T00:00:02.000Z''\<rparr>,
              message_json \<lparr>role = Assistant, content = ''Good evening.'',
                             timestamp = ''2026-01-01T00:00:03.000Z''\<rparr>]"
proof -
  note f = example_run_facts
  note a = loadHistory_example_world
  have s: "slice_last MAX_HISTORY ([] @ [x, y]) = [x, y]" for x y :: Message
    by (simp add: slice_last_def MAX_HISTORY_def)
  note r = on_message_text_recorded [OF f(1-4) a f(5-8), unfolded example_run_values s]
  have x: "fst (on_message_text example_env (example_update ''hi'') example_world) = Inr ()"
    using r [THEN conjunct2, THEN conjunct1] by (simp add: example_update_def)
  have y: "loadHistory (disk (snd (on_message_text example_env (example_update ''hi'')
                                     example_world)))
       = Inr [message_json \<lparr>role = User, content = ''hi'',
                             timestamp = ''2026-01-01T00:00:02.000Z''\<rparr>,
              message_json \<lparr>role = Assistant, content = ''Good evening.'',
                             timestamp = ''2026-01-01T00:00:03.000Z''\<rparr>]"
    using r [THEN conjunct2, THEN conjunct2, THEN conjunct1]
    by (simp add: example_update_def)
  show ?thesis
    by (intro conjI example_run_values(2) example_run_values(3) x y)
qed

text \<open>
  C4, as amended. The claim covers every error of the cycle, a failure to write the
  history included. What holds is for the errors raised by \<open>getResponse\<close> (the history
  cannot be loaded, or the model call is rejected): the handler then does nothing but
  send the apology, the file system is as it was, and the replies that reached the
  chat in the cycle are the apology alone (none when Telegram rejects it).
\<close>

theorem failure_apology:
  assumes "msg_text msg = Some t" and "accepted t" and "c \<noteq> 0"
    and "telegram_action env (trace w) c ''typing'' = None"
    and "fst (getResponse env t (typing_world w c)) = Inl e" and "e \<noteq> BeyondLatin1"
  shows "on_message_text env \<lparr>message = Some msg, chat_id = Some c\<rparr> w
           = reply env c apology (snd (getResponse env t (typing_world w c)))
     \<and> disk (snd (on_message_text env \<lparr>message = Some msg, chat_id = Some c\<rparr> w)) = disk w
     \<and> replies (trace (snd (on_message_text env \<lparr>message = Some msg, chat_id = Some c\<rparr> w)))
         = replies (trace w) @
           (if telegram_message env (trace (snd (getResponse env t (typing_world w c)))) c apology
               = None
            then [apology] else [])"
  using assms(1-5) by (rule on_message_text_apology)

theorem failure_apology_example:
  "accepted ''hi''
   \<and> fst (getResponse failing_env ''hi'' (typing_world example_world 42)) = Inl APIError
   \<and> disk (snd (on_message_text failing_env (example_update ''hi'') example_world))
       = disk example_world
   \<and> replies (trace (snd (on_message_text failing_env (example_update ''hi'') example_world)))
       = [''JARVIS: Sorry, something went wrong.'']"
proof -
  have a: "msg_text \<lparr>msg_text = Some ''hi''\<rparr> = Some ''hi''" by simp
  have b: "accepted ''hi''" by (simp add: accepted_def startsWith_def)
  have c: "(42::int) \<noteq> 0" by simp
  have d: "telegram_action failing_env (trace example_world) 42 ''typing'' = None"
    by (simp add: failing_env_def example_env_def)
  have l: "loadHistory (disk (typing_world example_world 42)) = Inr (map message_json [])"
    using loadHistory_example_world by (simp add: typing_world_def)
  have e: "fst (getResponse failing_env ''hi'' (typing_world example_world 42)) = Inl APIError"
    using getResponse_messages [OF l, of failing_env "''hi''"]
    by (simp add: Let_def failing_env_def)
  have g: "telegram_message failing_env tr 42 apology = None" for tr
    by (simp add: failing_env_def example_env_def)
  have n: "APIError \<noteq> BeyondLatin1" by simp
  note r = failure_apology [OF a b c d e n, unfolded g]
  show ?thesis
    using r [THEN conjunct2] b e
    by (simp add: example_update_def example_world_def apology_def ASSISTANT_NAME_def)
qed

text \<open>
  The claim C4 as stated fails when the history file cannot be written: the model
  call succeeds, the reply with the model's text is sent, \<open>addToHistory\<close> then throws
  inside the \<^verbatim>\<open>try\<close> block, and the apology is sent as a second reply.
\<close>

theorem write_failure_counterexample:
  "fst (getResponse example_env ''hi'' (typing_world readonly_world 42)) = Inr ''Good evening.''
   \<and> fst (respond_and_record example_env 42 ''hi'' (typing_world readonly_world 42)) = Inl EACCES
   \<and> replies (trace (snd (on_message_text example_env (example_update ''hi'') readonly_world)))
       = [''JARVIS: Good evening.'', ''JARVIS: Sorry, something went wrong.'']"
proof -
  note f = readonly_run_facts
  note r = on_message_text_unwritable [OF f]
  have l: "loadHistory (disk (typing_world readonly_world 42)) = Inr (map message_json [])"
    using f(5) by (simp add: typing_world_def)
  have "getResponse example_env ''hi'' (typing_world readonly_world 42)
      = (Inr (first_text [OtherBlock Thinking, TextBlock ''Good evening.'']),
         (typing_world readonly_world 42)\<lparr>trace := trace (typing_world readonly_world 42)
            @ [ModelInvoked (context_request [] ''hi'')]\<rparr>)"
    using getResponse_messages [OF l, of example_env "''hi''"]
    by (simp add: Let_def context_request_def response_text_first example_env_def)
  then have g: "fst (getResponse example_env ''hi'' (typing_world readonly_world 42))
      = Inr ''Good evening.''"
    by (simp add: example_run_values)
  have b: "fst (respond_and_record example_env 42 ''hi'' (typing_world readonly_world 42))
      = Inl EACCES"
    by (simp add: r(1))
  have t: "trace readonly_world = []"
    by (simp add: readonly_world_def example_world_def)
  have "replies (trace (snd (on_message_text example_env (example_update ''hi'') readonly_world)))
       = [''JARVIS: Good evening.'', ''JARVIS: Sorry, something went wrong.'']"
    unfolding example_update_def r(2) example_reply
    by (simp add: replied_world_def t answer_def example_run_values apology_def ASSISTANT_NAME_def)
  then show ?thesis using g b by simp
qed

text \<open>
  C7, as amended. The lines \<open>loadHistory\<close> parses are those of the trimmed text that are
  not empty (\<open>history_lines\<close>). When \<^verbatim>\<open>JSON.parse\<close> rejects one of them, \<open>loadHistory\<close>
  fails with the error of such a line, and so does \<open>getResponse\<close>, before the model is
  invoked and with the world as it was: nothing in between catches the error.
\<close>

theorem parse_error_propagates:
  assumes "file_text (disk w) = Some t" and "can_read (disk w)"
    and "l \<in> set (history_lines t)" and "JSON_parse l = Inl SyntaxError"
  shows "\<exists>e. loadHistory (disk w) = Inl e
             \<and> getResponse env u w = (Inl e, w)
             \<and> (\<exists>l'\<in>set (history_lines t). JSON_parse l' = Inl e)"
proof -
  obtain e where e: "map_JSON_parse (history_lines t) = Inl e"
      "\<exists>l'\<in>set (history_lines t). JSON_parse l' = Inl e"
    using map_JSON_parse_fails [OF assms(3,4)] by blast
  have "loadHistory (disk w) = Inl e"
    using assms(1,2) e(1) by (simp add: loadHistory_def existsSync_def readFileSync_def)
  then show ?thesis using e(2) by (auto simp: getResponse_def)
qed

theorem parse_error_propagates_example:
  "line_cut \<in> set (history_lines (line_A @ [CHR 0x0A] @ line_cut @ [CHR 0x0A] @ line_B))
   \<and> JSON_parse line_cut = Inl SyntaxError
   \<and> (\<exists>e. loadHistory (disk (example_world\<lparr>disk :=
                 file_of (line_A @ [CHR 0x0A] @ line_cut @ [CHR 0x0A] @ line_B)\<rparr>)) = Inl e
          \<and> getResponse example_env ''hi''
               (example_world\<lparr>disk := file_of (line_A @ [CHR 0x0A] @ line_cut @ [CHR 0x0A] @ line_B)\<rparr>)
             = (Inl e,
                example_world\<lparr>disk := file_of (line_A @ [CHR 0x0A] @ line_cut @ [CHR 0x0A] @ line_B)\<rparr>)
          \<and> (\<exists>l'\<in>set (history_lines (line_A @ [CHR 0x0A] @ line_cut @ [CHR 0x0A] @ line_B)).
                JSON_parse l' = Inl e))"
proof -
  let ?t = "line_A @ [CHR 0x0A] @ line_cut @ [CHR 0x0A] @ line_B"
  let ?w = "example_world\<lparr>disk := file_of ?t\<rparr>"
  have a: "file_text (disk ?w) = Some ?t" and b: "can_read (disk ?w)"
    by (simp_all add: file_of_def)
  have c: "line_cut \<in> set (history_lines ?t)"
    unfolding cut_lines by simp
  note d = parse_line_cut
  show ?thesis
    using parse_error_propagates [OF a b c d, of example_env "''hi''"] c d by blast
qed

text \<open>
  The claim C7 as stated fails on a file of three lines: a record, an empty line and
  the line \<^verbatim>\<open>42\<close>. \<^verbatim>\<open>JSON.parse\<close> rejects the empty line, which is skipped, and accepts
  \<^verbatim>\<open>42\<close>, which is not a record: \<open>loadHistory\<close> succeeds and returns the number among the
  records.
\<close>

theorem unvalidated_line_counterexample:
  "split (CHR 0x0A) (line_A @ [CHR 0x0A, CHR 0x0A] @ ''42'') = [line_A, [], ''42'']
   \<and> JSON_parse [] = Inl SyntaxError
   \<and> JSON_parse ''42'' = Inr (JNumber ''42'')
   \<and> as_Message (JNumber ''42'') = None
   \<and> loadHistory (file_of (line_A @ [CHR 0x0A, CHR 0x0A] @ ''42''))
       = Inr [message_json record_A, JNumber ''42'']"
proof -
  have s: "split (CHR 0x0A) (line_A @ [CHR 0x0A, CHR 0x0A] @ ''42'') = [line_A, [], ''42'']"
    by (simp add: line_A_def)
  have "trim (line_A @ [CHR 0x0A, CHR 0x0A] @ ''42'') = line_A @ [CHR 0x0A, CHR 0x0A] @ ''42''"
    using line_ends by (intro trim_id) (simp_all add: js_space_def)
  then have "history_lines (line_A @ [CHR 0x0A, CHR 0x0A] @ ''42'') = [line_A, ''42'']"
    using s line_ends by (simp add: history_lines_def)
  then have "loadHistory (file_of (line_A @ [CHR 0x0A, CHR 0x0A] @ ''42''))
       = Inr [message_json record_A, JNumber ''42'']"
    by (simp add: loadHistory_file_of parse_line_A parse_42)
  then show ?thesis
    using s parse_empty parse_42 by (simp add: as_Message_def)
qed

text \<open>
  C10, as amended. The lines \<open>loadHistory\<close> parses are the lines of the trimmed text
  that are not empty. For a file that can be read, with any white space before and
  after its text: when \<^verbatim>\<open>JSON.parse\<close> accepts each of those lines, \<open>loadHistory\<close>
  succeeds and returns their values in their order. The white space at both ends of
  the text, newlines included, and the empty lines are skipped; white space around a
  value inside a line is left to \<^verbatim>\<open>JSON.parse\<close>. In the example the lines end in CR
  LF, one line is empty and one starts with a space.
\<close>

theorem load_skips_empty_lines:
  assumes "file_text fs = Some (pre @ body @ post)" and "can_read fs"
    and "list_all js_space pre" and "list_all js_space post"
    and "\<forall>l\<in>set (history_lines body). JSON_parse l = Inr (val l)"
  shows "loadHistory fs = Inr (map val (history_lines body))
         \<and> history_lines (pre @ body @ post) = nonempty_lines (trim body)"
proof -
  have h: "history_lines (pre @ body @ post) = history_lines body"
    using assms(3,4) by (rule history_lines_padded)
  have "map_JSON_parse (history_lines body) = Inr (map val (history_lines body))"
    using assms(5) by (rule map_JSON_parse_values)
  then show ?thesis
    using assms(1,2) h
    by (simp add: loadHistory_def existsSync_def readFileSync_def)
       (simp add: history_lines_def nonempty_lines_def)
qed

theorem load_skips_empty_lines_example:
  "list_all js_space [CHR '' '', CHR 0x0A]
   \<and> list_all js_space [CHR '' '', CHR 0x0D, CHR 0x0A, CHR 0x09, CHR 0x0A]
   \<and> history_lines (line_A @ [CHR 0x0D, CHR 0x0A, CHR 0x0A, CHR '' ''] @ line_B)
       = [line_A @ [CHR 0x0D], CHR '' '' # line_B]
   \<and> JSON_parse (line_A @ [CHR 0x0D]) = Inr (message_json record_A)
   \<and> JSON_parse (CHR '' '' # line_B) = Inr (message_json record_B)
   \<and> loadHistory (file_of ([CHR '' '', CHR 0x0A]
                            @ (line_A @ [CHR 0x0D, CHR 0x0A, CHR 0x0A, CHR '' ''] @ line_B)
                            @ [CHR '' '', CHR 0x0D, CHR 0x0A, CHR 0x09, CHR 0x0A]))
       = Inr [message_json record_A, message_json record_B]"
proof -
  let ?pre = "[CHR '' '', CHR 0x0A]"
  let ?post = "[CHR '' '', CHR 0x0D, CHR 0x0A, CHR 0x09, CHR 0x0A]"
  let ?body = "line_A @ [CHR 0x0D, CHR 0x0A, CHR 0x0A, CHR '' ''] @ line_B"
  let ?val = "\<lambda>l. if l = line_A @ [CHR 0x0D] then message_json record_A
                  else message_json record_B"
  have a: "file_text (file_of (?pre @ ?body @ ?post)) = Some (?pre @ ?body @ ?post)"
    and b: "can_read (file_of (?pre @ ?body @ ?post))"
    by (simp_all add: file_of_def)
  have c: "list_all js_space ?pre" and d: "list_all js_space ?post"
    by (simp_all add: js_space_def)
  have ne: "CHR '' '' # line_B \<noteq> line_A @ [CHR 0x0D]"
    by (simp add: line_A_def)
  have e: "\<forall>l\<in>set (history_lines ?body). JSON_parse l = Inr (?val l)"
    unfolding crlf_lines using ne by (simp add: parse_line_A_CR parse_SP_line_B)
  note r = load_skips_empty_lines [OF a b c d e]
  have "loadHistory (file_of (?pre @ ?body @ ?post))
      = Inr [message_json record_A, message_json record_B]"
    using r [THEN conjunct1] unfolding crlf_lines using ne by simp
  then show ?thesis
    using c d crlf_lines parse_line_A_CR parse_SP_line_B by simp
qed

text \<open>
  The claim C10 as stated fails for a blank line that is not empty: between two
  records, a line that holds one space is kept by \<^verbatim>\<open>filter(Boolean)\<close>, \<^verbatim>\<open>JSON.parse\<close>
  rejects it, and \<open>loadHistory\<close> fails although both other lines are records.
\<close>

theorem blank_line_counterexample:
  "split (CHR 0x0A) (line_A @ [CHR 0x0A, CHR '' '', CHR 0x0A] @ line_B) = [line_A, '' '', line_B]
   \<and> list_all js_space '' ''
   \<and> JSON_parse line_A = Inr (message_json record_A)
   \<and> JSON_parse line_B = Inr (message_json record_B)
   \<and> loadHistory (file_of (line_A @ [CHR 0x0A, CHR '' '', CHR 0x0A] @ line_B)) = Inl SyntaxError"
proof -
  have s: "split (CHR 0x0A) (line_A @ [CHR 0x0A, CHR '' '', CHR 0x0A] @ line_B)
      = [line_A, '' '', line_B]"
    by (simp add: line_A_def line_B_def)
  have "trim (line_A @ [CHR 0x0A, CHR '' '', CHR 0x0A] @ line_B)
      = line_A @ [CHR 0x0A, CHR '' '', CHR 0x0A] @ line_B"
    using line_ends by (intro trim_id) simp_all
  then have "history_lines (line_A @ [CHR 0x0A, CHR '' '', CHR 0x0A] @ line_B)
      = [line_A, '' '', line_B]"
    using s line_ends by (simp add: history_lines_def)
  then have "loadHistory (file_of (line_A @ [CHR 0x0A, CHR '' '', CHR 0x0A] @ line_B))
      = Inl SyntaxError"
    by (simp add: loadHistory_file_of parse_line_A parse_space)
  then show ?thesis
    using s parse_line_A parse_line_B by (simp add: js_space_def)
qed

end
